theory Spec2Isabelle
  imports Main "HOL-Library.Word"
begin

section \<open>Paths, files and log records\<close>

text \<open>
  A path is the list of its components below the root, as \<^verbatim>\<open>pathlib\<close> holds an
  absolute path in \<^verbatim>\<open>parts\<close>; a Python \<^verbatim>\<open>str\<close> is a \<open>string\<close>; \<^verbatim>\<open>bytes\<close> is a
  list of octets.
\<close>

type_synonym path = "string list"
type_synonym byte = "8 word"
type_synonym bytes = "byte list"

subsection \<open>The \<^verbatim>\<open>pathlib\<close> and \<^verbatim>\<open>str\<close> operations the handler calls\<close>

definition path_name :: "path \<Rightarrow> string" where
  "path_name p = (if p = [] then [] else last p)"

text \<open>The index of the first occurrence.\<close>

fun index_of :: "'a \<Rightarrow> 'a list \<Rightarrow> nat option" where
  "index_of c [] = None"
| "index_of c (x # xs) = (if x = c then Some 0 else map_option Suc (index_of c xs))"

text \<open>\<^verbatim>\<open>str.rfind\<close>: the index of the last occurrence, \<open>None\<close> for Python's \<open>-1\<close>.\<close>

definition rfind :: "char \<Rightarrow> string \<Rightarrow> nat option" where
  "rfind c s = map_option (\<lambda>i. length s - 1 - i) (index_of c (rev s))"

text \<open>
  \<^verbatim>\<open>PurePath.suffix\<close> and \<^verbatim>\<open>PurePath.stem\<close> of a file name:
  \<^verbatim>\<open>i = name.rfind('.')\<close>, and the name splits at \<open>i\<close> when \<^verbatim>\<open>0 < i < len(name) - 1\<close>.
\<close>

definition name_suffix :: "string \<Rightarrow> string" where
  "name_suffix name =
     (case rfind CHR ''.'' name of
        None \<Rightarrow> []
      | Some i \<Rightarrow> if 0 < i \<and> i < length name - 1 then drop i name else [])"

definition name_stem :: "string \<Rightarrow> string" where
  "name_stem name =
     (case rfind CHR ''.'' name of
        None \<Rightarrow> name
      | Some i \<Rightarrow> if 0 < i \<and> i < length name - 1 then take i name else name)"

definition path_suffix :: "path \<Rightarrow> string" where
  "path_suffix p = name_suffix (path_name p)"

definition path_stem :: "path \<Rightarrow> string" where
  "path_stem p = name_stem (path_name p)"

text \<open>
  \<^verbatim>\<open>PurePath.with_suffix\<close>: the old suffix is cut from the name and the new one
  appended. The handler calls it with the old suffix followed by \<^verbatim>\<open>.tmp\<close> on a
  path whose name is not empty, where \<^verbatim>\<open>pathlib\<close> raises no \<^verbatim>\<open>ValueError\<close>.
\<close>

definition with_suffix :: "path \<Rightarrow> string \<Rightarrow> path" where
  "with_suffix p suffix =
     (let name = path_name p; old_suffix = path_suffix p
      in butlast p @ [take (length name - length old_suffix) name @ suffix])"

definition lower_char :: "char \<Rightarrow> char" where
  "lower_char c =
     (case map_of (zip ''ABCDEFGHIJKLMNOPQRSTUVWXYZ'' ''abcdefghijklmnopqrstuvwxyz'') c of
        None \<Rightarrow> c
      | Some l \<Rightarrow> l)"

text \<open>\<^verbatim>\<open>str.lower\<close>, on the letters that can turn into those of \<^verbatim>\<open>".pdf"\<close>.\<close>

definition lower :: "string \<Rightarrow> string" where
  "lower s = map lower_char s"

definition endswith :: "string \<Rightarrow> string \<Rightarrow> bool" where
  "endswith s t = (length t \<le> length s \<and> drop (length s - length t) s = t)"

subsection \<open>Log records\<close>

datatype level = DEBUG | INFO | WARNING | ERROR

text \<open>One constructor for each message the source formats.\<close>

datatype message =
    Duplicate_event path
  | Not_ready path
  | Wrote_pdf path bool
  | Pdf_write_failed
  | Wrote_base64 path bool
  | Failed_to_process path
  | Ocr_not_installed
  | Ocr_output_empty
  | Prior_ocr_detected
  | Ocr_failed

subsection \<open>The output file system\<close>

text \<open>
  The directories and regular files the handler writes, the paths on which the
  operating system refuses a write (\<open>denied\<close>: permissions, a full disk), and the
  log written so far.
\<close>

record world =
  dirs :: "path set"
  files :: "path \<rightharpoonup> bytes"
  denied :: "path set"
  logged :: "(level \<times> message) list"

text \<open>
  The exception classes that occur; \<^verbatim>\<open>except FileNotFoundError\<close> catches the one
  constructor, \<^verbatim>\<open>except Exception\<close> all of them.
\<close>

datatype py_exn = OSError | FileNotFoundError | PermissionError | RuntimeError | UnicodeError

definition logging :: "level \<Rightarrow> message \<Rightarrow> world \<Rightarrow> world" where
  "logging l m w = w\<lparr>logged := logged w @ [(l, m)]\<rparr>"

text \<open>A regular file can be created or overwritten at \<open>p\<close>.\<close>

definition writable :: "world \<Rightarrow> path \<Rightarrow> bool" where
  "writable w p = (p \<noteq> [] \<and> butlast p \<in> dirs w \<and> p \<notin> dirs w \<and> p \<notin> denied w)"

text \<open>\<^verbatim>\<open>Path.write_bytes\<close>.\<close>

definition write_bytes :: "world \<Rightarrow> path \<Rightarrow> bytes \<Rightarrow> py_exn + world" where
  "write_bytes w p data =
     (if writable w p then Inr (w\<lparr>files := (files w)(p \<mapsto> data)\<rparr>) else Inl OSError)"

text \<open>\<^verbatim>\<open>os.replace(src, dst)\<close>: the atomic rename.\<close>

definition os_replace :: "world \<Rightarrow> path \<Rightarrow> path \<Rightarrow> py_exn + world" where
  "os_replace w src dst =
     (case files w src of
        None \<Rightarrow> Inl OSError
      | Some data \<Rightarrow>
          if writable w dst then Inr (w\<lparr>files := ((files w)(src := None))(dst \<mapsto> data)\<rparr>)
          else Inl OSError)"

definition ancestors :: "path \<Rightarrow> path list" where
  "ancestors d = map (\<lambda>n. take n d) [0..<Suc (length d)]"

text \<open>\<^verbatim>\<open>Path.mkdir(parents=True, exist_ok=True)\<close>.\<close>

definition mkdir_parents :: "world \<Rightarrow> path \<Rightarrow> py_exn + world" where
  "mkdir_parents w d =
     (if list_ex (\<lambda>q. files w q \<noteq> None \<or> q \<in> denied w) (ancestors d) then Inl OSError
      else Inr (w\<lparr>dirs := dirs w \<union> set (ancestors d)\<rparr>))"

text \<open>
  \<^verbatim>\<open>bytes.decode("ascii")\<close> and \<^verbatim>\<open>str.encode("utf-8")\<close>, the latter as
  \<^verbatim>\<open>Path.write_text(..., encoding="utf-8")\<close> applies it, on code points below 256.
\<close>

definition decode_ascii :: "bytes \<Rightarrow> py_exn + string" where
  "decode_ascii bs =
     (if list_all (\<lambda>b. unat b < 128) bs then Inr (map (\<lambda>b. char_of (unat b)) bs)
      else Inl UnicodeError)"

definition encode_utf8 :: "string \<Rightarrow> bytes" where
  "encode_utf8 s =
     concat (map (\<lambda>c. let n = of_char c :: nat in
                        if n < 128 then [of_nat n]
                        else [of_nat (192 + n div 64), of_nat (128 + n mod 64)]) s)"

definition write_text :: "world \<Rightarrow> path \<Rightarrow> string \<Rightarrow> py_exn + world" where
  "write_text w p s = write_bytes w p (encode_utf8 s)"

section \<open>watcher/utils.py\<close>

text \<open>
  \<^verbatim>\<open>is_within(child, parent)\<close>: \<^verbatim>\<open>child.resolve().relative_to(parent.resolve())\<close>
  succeeds when the resolved parent is a prefix of the resolved child; any
  exception (\<open>None\<close> from \<open>resolve\<close>, or the \<^verbatim>\<open>ValueError\<close> of \<^verbatim>\<open>relative_to\<close>) gives
  \<^verbatim>\<open>False\<close>. \<open>resolve\<close> is the file system's answer, a parameter.
\<close>

definition is_within :: "(path \<Rightarrow> path option) \<Rightarrow> path \<Rightarrow> path \<Rightarrow> bool" where
  "is_within resolve child parent =
     (case resolve child of
        None \<Rightarrow> False
      | Some c \<Rightarrow>
          (case resolve parent of
             None \<Rightarrow> False
           | Some p \<Rightarrow> take (length p) c = p))"

subsection \<open>The readiness prober\<close>

text \<open>
  \<^verbatim>\<open>wait_for_file_ready\<close> polls a path that another process may still be writing.
  What one iteration of its loop sees is an observation of the outside world:
  \<^item> \<open>Missing\<close>: \<^verbatim>\<open>path.exists()\<close> is false;
  \<^item> \<open>Exists_raises e\<close>: \<^verbatim>\<open>path.exists()\<close> raises \<open>e\<close> (\<^verbatim>\<open>pathlib\<close> turns the errors
    \<^verbatim>\<open>ENOENT\<close>, \<^verbatim>\<open>ENOTDIR\<close>, \<^verbatim>\<open>EBADF\<close> and \<^verbatim>\<open>ELOOP\<close> of its \<^verbatim>\<open>stat\<close> call into \<^verbatim>\<open>False\<close> and
    raises every other \<^verbatim>\<open>OSError\<close> again);
  \<^item> \<open>Present opens st\<close>: the path exists, \<open>opens\<close> tells whether \<^verbatim>\<open>pikepdf.open\<close>
    would succeed on it, and \<open>st\<close> is the result of \<^verbatim>\<open>path.stat().st_size\<close>: the
    size, or the exception that \<^verbatim>\<open>stat\<close> raises.
  The observations of successive polls are a function from the poll index;
  the \<^verbatim>\<open>path.exists()\<close> after the loop is the observation that follows the last poll.
\<close>

datatype poll_obs = Missing | Exists_raises py_exn | Present bool "py_exn + nat"

text \<open>\<^verbatim>\<open>path.exists()\<close>.\<close>

fun path_exists :: "poll_obs \<Rightarrow> py_exn + bool" where
  "path_exists Missing = Inr False"
| "path_exists (Exists_raises e) = Inl e"
| "path_exists (Present opens st) = Inr True"

text \<open>
  The \<^verbatim>\<open>try\<close> around \<^verbatim>\<open>size = path.stat().st_size\<close>: \<^verbatim>\<open>FileNotFoundError\<close> is caught
  and gives the size \<open>-1\<close>, any other exception leaves the function.
\<close>

definition stat_size :: "py_exn + nat \<Rightarrow> py_exn + int" where
  "stat_size st =
     (case st of
        Inr n \<Rightarrow> Inr (int n)
      | Inl e \<Rightarrow> if e = FileNotFoundError then Inr (- 1) else Inl e)"

text \<open>The two local variables of the loop.\<close>

record probe_state =
  last_size :: int
  stable_count :: nat

text \<open>
  The source returns a \<^verbatim>\<open>bool\<close> from three places, and an exception of
  \<^verbatim>\<open>path.exists()\<close> or \<^verbatim>\<open>path.stat()\<close> inside the loop leaves it. \<open>ready_exit\<close> names
  the place, so that statements can tell the exits apart: \<open>BudgetExhausted r\<close> is
  the \<^verbatim>\<open>return path.exists()\<close> after the loop, \<open>r\<close> being what that call returns or
  raises. \<open>exit_value\<close> is the returned \<^verbatim>\<open>bool\<close>, or the exception.
\<close>

datatype ready_exit = ProbeOpened | SizeStable | BudgetExhausted "py_exn + bool" | Raised py_exn

fun exit_value :: "ready_exit \<Rightarrow> py_exn + bool" where
  "exit_value ProbeOpened = Inr True"
| "exit_value SizeStable = Inr True"
| "exit_value (BudgetExhausted r) = r"
| "exit_value (Raised e) = Inl e"

definition initial_probe_state :: probe_state where
  "initial_probe_state = \<lparr>last_size = - 1, stable_count = 0\<rparr>"

text \<open>
  One iteration of the loop body: \<open>Inl\<close> is the state carried into the next
  iteration (after the \<^verbatim>\<open>time.sleep\<close>), \<open>Inr\<close> leaves the function.
  \<open>have_pikepdf\<close> is the module constant \<^verbatim>\<open>HAVE_PIKEPDF\<close>.
\<close>

definition poll_body :: "bool \<Rightarrow> poll_obs \<Rightarrow> probe_state \<Rightarrow> probe_state + ready_exit" where
  "poll_body have_pikepdf ob s =
     (case ob of
        Missing \<Rightarrow> Inl s
      | Exists_raises e \<Rightarrow> Inr (Raised e)
      | Present opens st \<Rightarrow>
          if have_pikepdf \<and> opens then Inr ProbeOpened
          else
            (case stat_size st of
               Inl e \<Rightarrow> Inr (Raised e)
             | Inr st_size \<Rightarrow>
                 if st_size > 0 \<and> st_size = last_size s then
                   let sc = stable_count s + 1 in
                   if sc \<ge> 2 then Inr SizeStable
                   else Inl \<lparr>last_size = st_size, stable_count = sc\<rparr>
                 else Inl \<lparr>last_size = st_size, stable_count = 0\<rparr>))"

definition exists_at :: "(nat \<Rightarrow> poll_obs) \<Rightarrow> nat \<Rightarrow> py_exn + bool" where
  "exists_at obs i = path_exists (obs i)"

text \<open>
  The \<^verbatim>\<open>for\<close> loop: \<open>n\<close> iterations remain, \<open>i\<close> polls have been made.
  The result pairs the exit with the number of polls made before it.
\<close>

fun wait_loop :: "bool \<Rightarrow> (nat \<Rightarrow> poll_obs) \<Rightarrow> nat \<Rightarrow> nat \<Rightarrow> probe_state \<Rightarrow> ready_exit \<times> nat" where
  "wait_loop hp obs 0 i s = (BudgetExhausted (exists_at obs i), i)"
| "wait_loop hp obs (Suc n) i s =
     (case poll_body hp (obs i) s of
        Inr e \<Rightarrow> (e, Suc i)
      | Inl s' \<Rightarrow> wait_loop hp obs n (Suc i) s')"

text \<open>\<^verbatim>\<open>range(max(1, retries))\<close>: the number of iterations.\<close>

definition budget :: "int \<Rightarrow> nat" where
  "budget retries = nat (max 1 retries)"

definition wait_exit :: "bool \<Rightarrow> (nat \<Rightarrow> poll_obs) \<Rightarrow> int \<Rightarrow> ready_exit \<times> nat" where
  "wait_exit hp obs retries = wait_loop hp obs (budget retries) 0 initial_probe_state"

text \<open>
  \<^verbatim>\<open>wait_for_file_ready(path, use_polling, retries, sleep_s)\<close>: the \<^verbatim>\<open>bool\<close> returned,
  or the exception raised. The path is represented by its observations;
  \<^verbatim>\<open>use_polling\<close> is accepted and never read, as in the source; \<^verbatim>\<open>sleep_s\<close> only
  spaces the polls in time.
\<close>

definition wait_for_file_ready :: "bool \<Rightarrow> (nat \<Rightarrow> poll_obs) \<Rightarrow> bool \<Rightarrow> int \<Rightarrow> py_exn + bool" where
  "wait_for_file_ready hp obs use_polling retries = exit_value (fst (wait_exit hp obs retries))"

text \<open>
  The state after the first \<open>k\<close> polls, or the exit taken among them.
\<close>

fun polls_run :: "bool \<Rightarrow> (nat \<Rightarrow> poll_obs) \<Rightarrow> nat \<Rightarrow> probe_state + ready_exit" where
  "polls_run hp obs 0 = Inl initial_probe_state"
| "polls_run hp obs (Suc k) =
     (case polls_run hp obs k of
        Inr e \<Rightarrow> Inr e
      | Inl s \<Rightarrow> poll_body hp (obs k) s)"

text \<open>A finite list of observations, after which the path is gone.\<close>

definition polls_of :: "poll_obs list \<Rightarrow> nat \<Rightarrow> poll_obs" where
  "polls_of xs i = (if i < length xs then xs ! i else Missing)"

section \<open>watcher/ocr.py\<close>

text \<open>
  What the outside world answers during one task: the answers of the input file
  and of the OCR engine are parameters of the task.
  \<^item> \<open>is_dir\<close>: \<^verbatim>\<open>path.is_dir()\<close>;
  \<^item> \<open>resolve\<close>: \<^verbatim>\<open>Path.resolve()\<close>, \<open>None\<close> when it raises;
  \<^item> \<open>have_pikepdf\<close>: the module constant \<^verbatim>\<open>HAVE_PIKEPDF\<close>;
  \<^item> \<open>polls\<close>: what the polls of the readiness prober observe;
  \<^item> \<open>read_input\<close>: \<^verbatim>\<open>pdf_path.read_bytes()\<close>, \<open>None\<close> when it raises;
  \<^item> \<open>ocrmypdf_installed\<close>: the module variable \<^verbatim>\<open>ocrmypdf\<close> is not \<^verbatim>\<open>None\<close>;
  \<^item> \<open>scratch_created\<close>: \<^verbatim>\<open>tempfile.NamedTemporaryFile(suffix=".pdf", delete=True)\<close>
    creates the scratch file (it raises \<^verbatim>\<open>OSError\<close> when no temporary directory is
    usable or the file cannot be created);
  \<^item> \<open>scratch_removed\<close>: leaving the \<^verbatim>\<open>with\<close> block closes and unlinks the scratch
    file without error (the \<^verbatim>\<open>unlink\<close> raises when the file is no longer there);
  \<^item> \<open>cpu_count\<close>: \<^verbatim>\<open>os.cpu_count()\<close>;
  \<^item> \<open>ocrmypdf_ocr jobs output_type\<close>: how the body of the \<^verbatim>\<open>try\<close> block ends, the
    call of \<^verbatim>\<open>ocrmypdf.ocr\<close> followed by \<^verbatim>\<open>tmp_path.read_bytes()\<close>.
\<close>

datatype engine_result =
    Engine_output bytes
  | Engine_prior_ocr
  | Engine_error

record task_env =
  is_dir :: bool
  resolve :: "path \<Rightarrow> path option"
  have_pikepdf :: bool
  polls :: "nat \<Rightarrow> poll_obs"
  read_input :: "bytes option"
  ocrmypdf_installed :: bool
  scratch_created :: bool
  scratch_removed :: bool
  cpu_count :: "nat option"
  ocrmypdf_ocr :: "int \<Rightarrow> string \<Rightarrow> engine_result"

text \<open>
  \<^verbatim>\<open>jobs=(ocr_jobs if (ocr_jobs and ocr_jobs > 0) else (os.cpu_count() or 1))\<close>.
\<close>

definition engine_jobs :: "task_env \<Rightarrow> int option \<Rightarrow> int" where
  "engine_jobs env ocr_jobs =
     (let default = (case cpu_count env of
                       None \<Rightarrow> 1
                     | Some c \<Rightarrow> if c = 0 then 1 else int c)
      in case ocr_jobs of
           None \<Rightarrow> default
         | Some j \<Rightarrow> if j \<noteq> 0 \<and> j > 0 then j else default)"

text \<open>
  \<^verbatim>\<open>ocr_to_bytes(pdf_path, ocr_jobs, output_type)\<close> returns
  \<^verbatim>\<open>(pdf_bytes, used_original)\<close> or raises (\<open>Inl\<close>): the \<^verbatim>\<open>RuntimeError\<close> of an
  input that cannot be read, or the \<^verbatim>\<open>OSError\<close> of the scratch file. The \<^verbatim>\<open>with\<close>
  statement of the scratch file stands outside the \<^verbatim>\<open>try\<close>: when the file
  cannot be created the engine is not called, and when leaving the block
  fails, the exception replaces the value that the block was returning.
\<close>

definition ocr_to_bytes ::
  "task_env \<Rightarrow> int option \<Rightarrow> string \<Rightarrow> world \<Rightarrow> (py_exn + bytes \<times> bool) \<times> world" where
  "ocr_to_bytes env ocr_jobs output_type w =
     (case read_input env of
        None \<Rightarrow> (Inl RuntimeError, w)
      | Some original \<Rightarrow>
          if \<not> ocrmypdf_installed env then
            (Inr (original, True), logging WARNING Ocr_not_installed w)
          else if \<not> scratch_created env then (Inl OSError, w)
          else
            (case (case ocrmypdf_ocr env (engine_jobs env ocr_jobs)
                           (if output_type = [] then ''pdf'' else output_type) of
                     Engine_output data \<Rightarrow>
                       if data \<noteq> [] then ((data, False), w)
                       else ((original, True), logging WARNING Ocr_output_empty w)
                   | Engine_prior_ocr \<Rightarrow> ((original, True), logging INFO Prior_ocr_detected w)
                   | Engine_error \<Rightarrow> ((original, True), logging WARNING Ocr_failed w)) of
               (returned, w') \<Rightarrow>
                 if scratch_removed env then (Inr returned, w') else (Inl OSError, w')))"

section \<open>\<^verbatim>\<open>base64.b64encode\<close> and \<^verbatim>\<open>base64.b64decode\<close>\<close>

text \<open>
  The standard library's encoding (RFC 4648, the standard alphabet, padded with
  \<^verbatim>\<open>=\<close>), bytes to bytes as in Python.
\<close>

definition byte_of_char :: "char \<Rightarrow> byte" where
  "byte_of_char c = of_nat (of_char c)"

definition b64_alphabet :: bytes where
  "b64_alphabet = map byte_of_char
     ''ABCDEFGHIJKLMNOPQRSTUVWXYZabcdefghijklmnopqrstuvwxyz0123456789+/''"

definition b64_pad :: byte where
  "b64_pad = byte_of_char CHR ''=''"

definition b64_digit :: "nat \<Rightarrow> byte" where
  "b64_digit n = b64_alphabet ! (n mod 64)"

fun b64encode :: "bytes \<Rightarrow> bytes" where
  "b64encode [] = []"
| "b64encode [a] =
     (let x = unat a
      in [b64_digit (x div 4), b64_digit (x mod 4 * 16), b64_pad, b64_pad])"
| "b64encode [a, b] =
     (let x = unat a; y = unat b
      in [b64_digit (x div 4), b64_digit (x mod 4 * 16 + y div 16),
          b64_digit (y mod 16 * 4), b64_pad])"
| "b64encode (a # b # c # rest) =
     (let x = unat a; y = unat b; z = unat c
      in [b64_digit (x div 4), b64_digit (x mod 4 * 16 + y div 16),
          b64_digit (y mod 16 * 4 + z div 64), b64_digit (z mod 64)])
     @ b64encode rest"

definition b64_value :: "byte \<Rightarrow> nat option" where
  "b64_value c = index_of c b64_alphabet"

text \<open>
  Decoding of canonical input: groups of four digits, the last one possibly
  padded; \<open>None\<close> is \<^verbatim>\<open>binascii.Error\<close>.
\<close>

fun b64decode :: "bytes \<Rightarrow> bytes option" where
  "b64decode [] = Some []"
| "b64decode (c0 # c1 # c2 # c3 # rest) =
     (case (b64_value c0, b64_value c1) of
        (Some s0, Some s1) \<Rightarrow>
          if c2 = b64_pad \<and> c3 = b64_pad \<and> rest = [] then
            Some [of_nat (s0 * 4 + s1 div 16)]
          else
            (case b64_value c2 of
               None \<Rightarrow> None
             | Some s2 \<Rightarrow>
                 if c3 = b64_pad \<and> rest = [] then
                   Some [of_nat (s0 * 4 + s1 div 16), of_nat (s1 mod 16 * 16 + s2 div 4)]
                 else
                   (case b64_value c3 of
                      None \<Rightarrow> None
                    | Some s3 \<Rightarrow>
                        map_option
                          (\<lambda>r. [of_nat (s0 * 4 + s1 div 16), of_nat (s1 mod 16 * 16 + s2 div 4),
                                of_nat (s2 mod 4 * 64 + s3)] @ r)
                          (b64decode rest)))
      | _ \<Rightarrow> None)"
| "b64decode _ = None"

section \<open>watcher/handlers.py\<close>

text \<open>The configuration fields of \<^verbatim>\<open>PdfToBase64Handler\<close>.\<close>

record handler =
  input_dir :: path
  output_dir :: path
  use_polling :: bool
  retries :: int
  ocr_jobs :: "int option"
  output_type :: string

text \<open>
  \<^verbatim>\<open>_handle_path\<close> returns \<^verbatim>\<open>None\<close> from every \<^verbatim>\<open>return\<close>. \<open>outcome\<close> names the exit
  taken: one of the three filters, the readiness gate, the handler of the outer
  \<^verbatim>\<open>try\<close>, or the end of its body; \<open>Emitted pdf\<close> tells whether the inner
  \<^verbatim>\<open>try\<close> that writes the PDF artifact ran to its end. \<open>Escaped e\<close> is the
  exception of \<^verbatim>\<open>wait_for_file_ready\<close>, which is called before the outer \<^verbatim>\<open>try\<close>:
  it leaves \<^verbatim>\<open>_handle_path\<close>, and nothing is logged.
\<close>

datatype outcome = Filtered | Unready | Errored | Emitted bool | Escaped py_exn

definition pdf_out_path :: "handler \<Rightarrow> path \<Rightarrow> path" where
  "pdf_out_path h path = output_dir h @ [path_stem path @ ''_ocr.pdf'']"

definition out_path :: "handler \<Rightarrow> path \<Rightarrow> path" where
  "out_path h path = output_dir h @ [path_stem path @ ''.base64'']"

text \<open>The inner \<^verbatim>\<open>try\<close>/\<^verbatim>\<open>except\<close>: the PDF artifact, written to a temporary name and renamed.\<close>

definition emit_pdf :: "handler \<Rightarrow> path \<Rightarrow> bytes \<Rightarrow> bool \<Rightarrow> world \<Rightarrow> bool \<times> world" where
  "emit_pdf h path pdf_bytes used_original w =
     (let tmp_pdf_out = with_suffix (pdf_out_path h path) (path_suffix (pdf_out_path h path) @ ''.tmp'')
      in case write_bytes w tmp_pdf_out pdf_bytes of
           Inl e \<Rightarrow> (False, logging WARNING Pdf_write_failed w)
         | Inr w1 \<Rightarrow>
             (case os_replace w1 tmp_pdf_out (pdf_out_path h path) of
                Inl e \<Rightarrow> (False, logging WARNING Pdf_write_failed w1)
              | Inr w2 \<Rightarrow>
                  (True, logging INFO (Wrote_pdf (pdf_out_path h path) used_original) w2)))"

text \<open>The body of the outer \<^verbatim>\<open>try\<close>; \<open>Inl\<close> is the exception that leaves it.\<close>

definition try_body :: "handler \<Rightarrow> task_env \<Rightarrow> path \<Rightarrow> world \<Rightarrow> (py_exn + bool) \<times> world" where
  "try_body h env path w =
     (case ocr_to_bytes env (ocr_jobs h) (output_type h) w of
        (Inl e, w0) \<Rightarrow> (Inl e, w0)
      | (Inr (pdf_bytes, used_original), w0) \<Rightarrow>
          (case emit_pdf h path pdf_bytes used_original w0 of
             (pdf_ok, w1) \<Rightarrow>
               (case decode_ascii (b64encode pdf_bytes) of
                  Inl e \<Rightarrow> (Inl e, w1)
                | Inr b64 \<Rightarrow>
                    (case mkdir_parents w1 (output_dir h) of
                       Inl e \<Rightarrow> (Inl e, w1)
                     | Inr w2 \<Rightarrow>
                         (let tmp_path = with_suffix (out_path h path)
                                           (path_suffix (out_path h path) @ ''.tmp'')
                          in case write_text w2 tmp_path b64 of
                               Inl e \<Rightarrow> (Inl e, w2)
                             | Inr w3 \<Rightarrow>
                                 (case os_replace w3 tmp_path (out_path h path) of
                                    Inl e \<Rightarrow> (Inl e, w3)
                                  | Inr w4 \<Rightarrow>
                                      (Inr pdf_ok,
                                       logging INFO (Wrote_base64 (out_path h path) used_original) w4)))))))"

definition handle_path :: "handler \<Rightarrow> task_env \<Rightarrow> path \<Rightarrow> world \<Rightarrow> outcome \<times> world" where
  "handle_path h env path w =
     (if is_dir env \<or> lower (path_suffix path) \<noteq> ''.pdf'' then (Filtered, w)
      else if endswith (path_name path) ''_ocr.pdf'' \<or> endswith (path_name path) ''.ocr.pdf''
        then (Filtered, w)
      else if output_dir h \<noteq> input_dir h \<and> is_within (resolve env) path (output_dir h)
        then (Filtered, w)
      else
        (case wait_for_file_ready (have_pikepdf env) (polls env) (use_polling h) (retries h) of
           Inl e \<Rightarrow> (Escaped e, w)
         | Inr ready \<Rightarrow>
             if \<not> ready then (Unready, logging WARNING (Not_ready path) w)
             else
               (case try_body h env path w of
                  (Inl e, w') \<Rightarrow> (Errored, logging ERROR (Failed_to_process path) w')
                | (Inr pdf_ok, w') \<Rightarrow> (Emitted pdf_ok, w'))))"

subsection \<open>The dispatcher\<close>

text \<open>
  The handler's mutable state and the executor it submits to: the set
  \<^verbatim>\<open>_in_flight\<close>, the work units the \<^verbatim>\<open>ThreadPoolExecutor\<close> holds in its queue, the
  ones its workers are running, and the output file system with the log.
  Every access to \<^verbatim>\<open>_in_flight\<close> happens under \<^verbatim>\<open>_lock\<close>, so each is one step.
\<close>

record system =
  in_flight :: "path set"
  pending :: "path list"
  running :: "path list"
  store :: world

definition initial_system :: "world \<Rightarrow> system" where
  "initial_system w = \<lparr>in_flight = {}, pending = [], running = [], store = w\<rparr>"

definition submit_path :: "path \<Rightarrow> system \<Rightarrow> system" where
  "submit_path path s =
     (if path \<in> in_flight s then
        s\<lparr>store := logging DEBUG (Duplicate_event path) (store s)\<rparr>
      else
        s\<lparr>in_flight := insert path (in_flight s), pending := pending s @ [path]\<rparr>)"

text \<open>
  The work unit \<^verbatim>\<open>_task\<close>: \<^verbatim>\<open>_handle_path\<close>, then, in the \<^verbatim>\<open>finally\<close> clause,
  \<^verbatim>\<open>_in_flight.discard(path)\<close>, also when an exception leaves \<^verbatim>\<open>_handle_path\<close>; the
  exception ends in the \<^verbatim>\<open>Future\<close> that \<^verbatim>\<open>submit_path\<close> drops.
\<close>

definition task :: "handler \<Rightarrow> task_env \<Rightarrow> path \<Rightarrow> system \<Rightarrow> system" where
  "task h env path s =
     (case handle_path h env path (store s) of
        (result, w') \<Rightarrow> s\<lparr>store := w', in_flight := in_flight s - {path}\<rparr>)"

text \<open>
  What can happen next: a notification submits a path, a free worker takes the
  oldest queued work unit, a running work unit comes to its end.
\<close>

datatype event = Submit path | Start | Finish path task_env

fun step :: "handler \<Rightarrow> nat \<Rightarrow> event \<Rightarrow> system \<Rightarrow> system" where
  "step h workers (Submit path) s = submit_path path s"
| "step h workers Start s =
     (case pending s of
        [] \<Rightarrow> s
      | path # rest \<Rightarrow>
          if length (running s) < workers then s\<lparr>pending := rest, running := running s @ [path]\<rparr>
          else s)"
| "step h workers (Finish path env) s =
     (if path \<in> set (running s) then task h env path (s\<lparr>running := remove1 path (running s)\<rparr>)
      else s)"

fun run :: "handler \<Rightarrow> nat \<Rightarrow> event list \<Rightarrow> system \<Rightarrow> system" where
  "run h workers [] s = s"
| "run h workers (e # es) s = run h workers es (step h workers e s)"

text \<open>
  How often a run admits \<open>p\<close> into the set, and how often a work unit of \<open>p\<close>
  comes to its end in it.
\<close>

fun admissions :: "handler \<Rightarrow> nat \<Rightarrow> path \<Rightarrow> event list \<Rightarrow> system \<Rightarrow> nat" where
  "admissions h workers p [] s = 0"
| "admissions h workers p (e # es) s =
     (case e of
        Submit q \<Rightarrow> if q = p \<and> p \<notin> in_flight s then 1 else 0
      | _ \<Rightarrow> 0)
     + admissions h workers p es (step h workers e s)"

fun releases :: "handler \<Rightarrow> nat \<Rightarrow> path \<Rightarrow> event list \<Rightarrow> system \<Rightarrow> nat" where
  "releases h workers p [] s = 0"
| "releases h workers p (e # es) s =
     (case e of
        Finish q env \<Rightarrow> if q = p \<and> p \<in> set (running s) then 1 else 0
      | _ \<Rightarrow> 0)
     + releases h workers p es (step h workers e s)"

section \<open>watcher/cli.py\<close>

text \<open>
  The initial scan of \<^verbatim>\<open>main\<close>, over the sorted result of
  \<^verbatim>\<open>input_dir.rglob("*.pdf")\<close>.
\<close>

fun initial_scan :: "(path \<Rightarrow> path option) \<Rightarrow> handler \<Rightarrow> path list \<Rightarrow> system \<Rightarrow> system" where
  "initial_scan res h [] s = s"
| "initial_scan res h (pdf # pdfs) s =
     (if is_within res pdf (output_dir h) then initial_scan res h pdfs s
      else initial_scan res h pdfs (submit_path pdf s))"

section \<open>Consistency of the dispatcher, and sample inputs\<close>

text \<open>
  The work units the executor holds, queued or running, are pairwise of
  different paths, and their paths are the members of \<^verbatim>\<open>_in_flight\<close>.
\<close>

definition consistent :: "system \<Rightarrow> bool" where
  "consistent s = (distinct (pending s @ running s) \<and> set (pending s @ running s) = in_flight s)"

text \<open>
  A handler watching \<^verbatim>\<open>/in\<close> with the default output directory \<^verbatim>\<open>/in/base64\<close>, one
  watching \<^verbatim>\<open>/in\<close> and writing into it, a task whose file is ready at the first
  poll and whose OCR yields four bytes, and a file system that holds the
  directories.
\<close>

definition sample_handler :: handler where
  "sample_handler =
     \<lparr>input_dir = [''in''], output_dir = [''in'', ''base64''], use_polling = False,
      retries = 30, ocr_jobs = Some 1, output_type = ''pdf''\<rparr>"

definition same_dir_handler :: handler where
  "same_dir_handler = sample_handler\<lparr>output_dir := [''in'']\<rparr>"

definition sample_env :: task_env where
  "sample_env =
     \<lparr>is_dir = False, resolve = Some, have_pikepdf = True,
      polls = (\<lambda>i. Present True (Inr 3)), read_input = Some [1, 2, 3],
      ocrmypdf_installed = True, scratch_created = True, scratch_removed = True,
      cpu_count = Some 4,
      ocrmypdf_ocr = (\<lambda>jobs output_type. Engine_output [4, 5, 6, 7])\<rparr>"

definition sample_world :: world where
  "sample_world =
     \<lparr>dirs = {[], [''in''], [''in'', ''base64'']}, files = Map.empty, denied = {}, logged = []\<rparr>"

text \<open>
  The state of the prober's loop before poll \<open>i\<close>, when the polls made so far
  observed the sizes \<open>sz 0\<close>, ..., \<open>sz (i - 1)\<close> and the loop has not returned:
  \<open>last_size\<close> is the size observed last, and \<open>stable_count\<close> is one when the two
  sizes observed last are one positive size, zero otherwise.
\<close>

definition state_before :: "(nat \<Rightarrow> int) \<Rightarrow> nat \<Rightarrow> probe_state" where
  "state_before sz i =
     \<lparr>last_size = (if i = 0 then - 1 else sz (i - 1)),
      stable_count = (if 2 \<le> i \<and> 0 < sz (i - 1) \<and> sz (i - 2) = sz (i - 1) then 1 else 0)\<rparr>"

section \<open>Properties of the readiness prober\<close>

lemma poll_body_Missing: "poll_body hp Missing s = Inl s"
  by (simp add: poll_body_def)

lemma poll_body_zero:
  "\<not> (hp \<and> opens) \<Longrightarrow> poll_body hp (Present opens (Inr 0)) s = Inl \<lparr>last_size = 0, stable_count = 0\<rparr>"
  by (simp add: poll_body_def stat_size_def)

lemma wait_loop_exhausted:
  "wait_loop hp obs n i s = (BudgetExhausted b, m) \<Longrightarrow> b = exists_at obs (i + n) \<and> m = i + n"
proof (induction n arbitrary: i s)
  case 0
  then show ?case by auto
next
  case (Suc n)
  show ?case
  proof (cases "poll_body hp (obs i) s")
    case (Inl s')
    with Suc.prems have "wait_loop hp obs n (Suc i) s' = (BudgetExhausted b, m)" by simp
    from Suc.IH[OF this] show ?thesis by simp
  next
    case (Inr e)
    with Suc.prems have "e = BudgetExhausted b" by simp
    with Inr show ?thesis
      by (auto simp: poll_body_def Let_def split: poll_obs.splits if_splits sum.splits)
  qed
qed

lemma wait_loop_no_size:
  "(\<And>j. i \<le> j \<Longrightarrow> j < i + n \<Longrightarrow>
       obs j = Missing \<or> (\<exists>opens. obs j = Present opens (Inr 0) \<and> \<not> (hp \<and> opens)))
   \<Longrightarrow> wait_loop hp obs n i s = (BudgetExhausted (exists_at obs (i + n)), i + n)"
proof (induction n arbitrary: i s)
  case 0
  then show ?case by simp
next
  case (Suc n)
  have rest: "wait_loop hp obs n (Suc i) s' = (BudgetExhausted (exists_at obs (Suc i + n)), Suc i + n)" for s'
    by (rule Suc.IH) (use Suc.prems in auto)
  from Suc.prems[of i] consider "obs i = Missing"
    | opens where "obs i = Present opens (Inr 0)" "\<not> (hp \<and> opens)"
    by auto
  then show ?case
  proof cases
    case 1
    then show ?thesis using rest by (simp add: poll_body_Missing)
  next
    case 2
    then show ?thesis using rest by (simp add: poll_body_zero)
  qed
qed

text \<open>
  One poll of a path that exists, with the structural probe unavailable or
  failing: the loop returns when the size observed is positive and is the
  size of the two polls before, and goes on otherwise.
\<close>

lemma poll_body_present:
  assumes "ob = Present opens st" "\<not> (hp \<and> opens)" "stat_size st = Inr (sz i)"
  shows "poll_body hp ob (state_before sz i) =
     (if 2 \<le> i \<and> 0 < sz i \<and> sz (i - 1) = sz i \<and> sz (i - 2) = sz i then Inr SizeStable
      else Inl (state_before sz (Suc i)))"
proof (cases i)
  case 0
  with assms show ?thesis by (simp add: poll_body_def state_before_def)
next
  case (Suc j)
  show ?thesis
  proof (cases j)
    case 0
    with Suc assms show ?thesis by (auto simp: poll_body_def state_before_def)
  next
    case (Suc k)
    with \<open>i = Suc j\<close> have i: "i = Suc (Suc k)" by simp
    from assms show ?thesis unfolding i
      by (auto simp: poll_body_def state_before_def numeral_2_eq_2)
  qed
qed

lemma wait_loop_scan:
  assumes "\<And>j. i \<le> j \<Longrightarrow> j < i + k \<Longrightarrow>
        \<exists>opens st. obs j = Present opens st \<and> \<not> (hp \<and> opens) \<and> stat_size st = Inr (sz j)"
    and "\<And>j. i \<le> j \<Longrightarrow> j < i + k \<Longrightarrow>
        \<not> (2 \<le> j \<and> 0 < sz j \<and> sz (j - 1) = sz j \<and> sz (j - 2) = sz j)"
  shows "wait_loop hp obs (k + n) i (state_before sz i)
       = wait_loop hp obs n (i + k) (state_before sz (i + k))"
  using assms
proof (induction k arbitrary: i)
  case 0
  then show ?case by simp
next
  case (Suc k)
  from Suc.prems(1)[of i] obtain opens st
    where o: "obs i = Present opens st" "\<not> (hp \<and> opens)" "stat_size st = Inr (sz i)"
    by auto
  from Suc.prems(2)[of i]
  have n: "\<not> (2 \<le> i \<and> 0 < sz i \<and> sz (i - 1) = sz i \<and> sz (i - 2) = sz i)" by simp
  have step: "poll_body hp (obs i) (state_before sz i) = Inl (state_before sz (Suc i))"
    using poll_body_present[where sz = sz and i = i, OF o] n by simp
  have "wait_loop hp obs (k + n) (Suc i) (state_before sz (Suc i))
      = wait_loop hp obs n (Suc i + k) (state_before sz (Suc i + k))"
    by (rule Suc.IH) (use Suc.prems in auto)
  with step show ?case by simp
qed

lemma state_before_0: "state_before sz 0 = initial_probe_state"
  by (simp add: state_before_def initial_probe_state_def)

text \<open>An exception that leaves the loop is one that a poll observed.\<close>

lemma wait_loop_raises:
  "exit_value (fst (wait_loop hp obs n i s)) = Inl e \<Longrightarrow>
   \<exists>j. i \<le> j \<and> j \<le> i + n
      \<and> (obs j = Exists_raises e \<or> (\<exists>opens. obs j = Present opens (Inl e) \<and> e \<noteq> FileNotFoundError))"
proof (induction n arbitrary: i s)
  case 0
  then show ?case
    by (cases "obs i") (auto simp: exists_at_def)
next
  case (Suc n)
  show ?case
  proof (cases "poll_body hp (obs i) s")
    case (Inl s')
    with Suc.prems have "exit_value (fst (wait_loop hp obs n (Suc i) s')) = Inl e" by simp
    from Suc.IH[OF this] obtain j where "Suc i \<le> j" "j \<le> Suc i + n"
      "obs j = Exists_raises e \<or> (\<exists>opens. obs j = Present opens (Inl e) \<and> e \<noteq> FileNotFoundError)"
      by blast
    then show ?thesis by (intro exI[of _ j]) auto
  next
    case (Inr x)
    with Suc.prems have "exit_value x = Inl e" by simp
    with Inr have "obs i = Exists_raises e \<or> (\<exists>opens. obs i = Present opens (Inl e) \<and> e \<noteq> FileNotFoundError)"
      by (auto simp: poll_body_def stat_size_def Let_def split: poll_obs.splits if_splits sum.splits)
    then show ?thesis by (intro exI[of _ i]) auto
  qed
qed

lemma stability_exit:
  assumes lt: "m < budget r"
    and pres: "\<forall>i\<le>m. \<exists>opens st. obs i = Present opens st \<and> \<not> (hp \<and> opens) \<and> stat_size st = Inr (sz i)"
    and st: "2 \<le> m" "0 < sz m" "sz (m - 1) = sz m" "sz (m - 2) = sz m"
    and first: "\<forall>i<m. \<not> (2 \<le> i \<and> 0 < sz i \<and> sz (i - 1) = sz i \<and> sz (i - 2) = sz i)"
  shows "wait_exit hp obs r = (SizeStable, m + 1)"
proof -
  from less_imp_Suc_add[OF lt] obtain n where "budget r = Suc (m + n)" by blast
  then have n: "budget r = m + Suc n" by simp
  from pres[rule_format, of m] obtain opens st
    where o: "obs m = Present opens st" "\<not> (hp \<and> opens)" "stat_size st = Inr (sz m)"
    by auto
  have scan: "wait_loop hp obs (m + Suc n) 0 (state_before sz 0)
      = wait_loop hp obs (Suc n) (0 + m) (state_before sz (0 + m))"
  proof (rule wait_loop_scan)
    fix j :: nat assume "0 \<le> j" "j < 0 + m"
    then have j: "j \<le> m" "j < m" by simp_all
    from pres[rule_format, OF j(1)]
    show "\<exists>opens st. obs j = Present opens st \<and> \<not> (hp \<and> opens) \<and> stat_size st = Inr (sz j)" .
    from first[rule_format, OF j(2)]
    show "\<not> (2 \<le> j \<and> 0 < sz j \<and> sz (j - 1) = sz j \<and> sz (j - 2) = sz j)" .
  qed
  have "poll_body hp (obs m) (state_before sz m) = Inr SizeStable"
    using poll_body_present[where sz = sz and i = m, OF o] st by simp
  then have "wait_loop hp obs (Suc n) m (state_before sz m) = (SizeStable, Suc m)"
    by simp
  with scan have "wait_loop hp obs (m + Suc n) 0 (state_before sz 0) = (SizeStable, Suc m)"
    by simp
  then show ?thesis
    unfolding wait_exit_def n state_before_0 by simp
qed

lemma no_stability_exit:
  assumes pres: "\<forall>i<budget r. \<exists>opens st. obs i = Present opens st \<and> \<not> (hp \<and> opens)
            \<and> stat_size st = Inr (sz i)"
    and none: "\<forall>i<budget r. \<not> (2 \<le> i \<and> 0 < sz i \<and> sz (i - 1) = sz i \<and> sz (i - 2) = sz i)"
  shows "wait_exit hp obs r = (BudgetExhausted (exists_at obs (budget r)), budget r)"
proof -
  have "wait_loop hp obs (budget r + 0) 0 (state_before sz 0)
      = wait_loop hp obs 0 (0 + budget r) (state_before sz (0 + budget r))"
  proof (rule wait_loop_scan)
    fix j :: nat assume "0 \<le> j" "j < 0 + budget r"
    then have j: "j < budget r" by simp
    from pres[rule_format, OF j]
    show "\<exists>opens st. obs j = Present opens st \<and> \<not> (hp \<and> opens) \<and> stat_size st = Inr (sz j)" .
    from none[rule_format, OF j]
    show "\<not> (2 \<le> j \<and> 0 < sz j \<and> sz (j - 1) = sz j \<and> sz (j - 2) = sz j)" .
  qed
  then show ?thesis
    unfolding wait_exit_def state_before_0[symmetric, of sz] by simp
qed

text \<open>
  C6 (size-stability readiness). Two consecutive polls that observe the same
  positive size do not yet make the prober return: the first of them only
  records the size, the second makes \<open>stable_count\<close> one, and the loop returns
  at \<open>stable_count \<ge> 2\<close>. Below, the size is 500 at both polls and the path is
  gone afterwards: after two polls the loop is still running with
  \<open>stable_count = 1\<close>, and the call returns \<^verbatim>\<open>False\<close>.
\<close>

theorem two_equal_polls_not_ready:
  "polls_run False (polls_of [Present False (Inr 500), Present False (Inr 500)]) 2
     = Inl \<lparr>last_size = 500, stable_count = 1\<rparr>
   \<and> wait_for_file_ready False (polls_of [Present False (Inr 500), Present False (Inr 500)]) False 3
     = Inr False"
  by (simp add: wait_for_file_ready_def wait_exit_def budget_def polls_of_def poll_body_def
      stat_size_def initial_probe_state_def exists_at_def numeral_2_eq_2 numeral_3_eq_3)

text \<open>
  C6 as the code has it. Let the path exist at every poll, with the structural
  probe unavailable or failing, and let \<open>sz i\<close> be the size that poll \<open>i\<close>
  observes (\<open>-1\<close> when \<^verbatim>\<open>stat\<close> raises \<^verbatim>\<open>FileNotFoundError\<close>). Poll \<open>m\<close> is the second
  of two consecutive polls that each observe the positive size of the poll
  before them when \<open>sz (m - 2) = sz (m - 1) = sz m > 0\<close>. The prober returns
  \<^verbatim>\<open>True\<close> through the stability exit at the first such poll within the budget,
  after \<open>m + 1\<close> polls and not before, whatever sizes the polls before observed
  (growth may pause and go on); and when no poll within the budget is such a
  poll, the loop runs to the end of the budget.
\<close>

theorem stops_growing:
  "(m < budget r
      \<and> (\<forall>i\<le>m. \<exists>opens st. obs i = Present opens st \<and> \<not> (hp \<and> opens) \<and> stat_size st = Inr (sz i))
      \<and> 2 \<le> m \<and> 0 < sz m \<and> sz (m - 1) = sz m \<and> sz (m - 2) = sz m
      \<and> (\<forall>i<m. \<not> (2 \<le> i \<and> 0 < sz i \<and> sz (i - 1) = sz i \<and> sz (i - 2) = sz i))
    \<longrightarrow> wait_exit hp obs r = (SizeStable, m + 1)
        \<and> wait_for_file_ready hp obs up r = Inr True)
   \<and> ((\<forall>i<budget r. \<exists>opens st. obs i = Present opens st \<and> \<not> (hp \<and> opens)
            \<and> stat_size st = Inr (sz i))
      \<and> (\<forall>i<budget r. \<not> (2 \<le> i \<and> 0 < sz i \<and> sz (i - 1) = sz i \<and> sz (i - 2) = sz i))
    \<longrightarrow> wait_exit hp obs r = (BudgetExhausted (exists_at obs (budget r)), budget r)
        \<and> wait_for_file_ready hp obs up r = exists_at obs (budget r))"
proof (intro conjI impI)
  assume a: "m < budget r
      \<and> (\<forall>i\<le>m. \<exists>opens st. obs i = Present opens st \<and> \<not> (hp \<and> opens) \<and> stat_size st = Inr (sz i))
      \<and> 2 \<le> m \<and> 0 < sz m \<and> sz (m - 1) = sz m \<and> sz (m - 2) = sz m
      \<and> (\<forall>i<m. \<not> (2 \<le> i \<and> 0 < sz i \<and> sz (i - 1) = sz i \<and> sz (i - 2) = sz i))"
  note b = a[THEN conjunct2]
  note c = b[THEN conjunct2]
  note d = c[THEN conjunct2]
  note e = d[THEN conjunct2]
  note f = e[THEN conjunct2]
  show x: "wait_exit hp obs r = (SizeStable, m + 1)"
    by (rule stability_exit[OF a[THEN conjunct1] b[THEN conjunct1] c[THEN conjunct1]
          d[THEN conjunct1] e[THEN conjunct1] f[THEN conjunct1] f[THEN conjunct2]])
  show "wait_for_file_ready hp obs up r = Inr True"
    unfolding wait_for_file_ready_def x by simp
next
  assume a: "(\<forall>i<budget r. \<exists>opens st. obs i = Present opens st \<and> \<not> (hp \<and> opens)
            \<and> stat_size st = Inr (sz i))
      \<and> (\<forall>i<budget r. \<not> (2 \<le> i \<and> 0 < sz i \<and> sz (i - 1) = sz i \<and> sz (i - 2) = sz i))"
  show x: "wait_exit hp obs r = (BudgetExhausted (exists_at obs (budget r)), budget r)"
    by (rule no_stability_exit[OF a[THEN conjunct1] a[THEN conjunct2]])
  show "wait_for_file_ready hp obs up r = exists_at obs (budget r)"
    unfolding wait_for_file_ready_def x by simp
qed

theorem stops_growing_witness:
  "wait_exit False
     (polls_of [Present False (Inr 0), Present False (Inr 0), Present False (Inr 500),
                Present False (Inr 500), Present False (Inr 500)]) 30 = (SizeStable, 5)
   \<and> wait_exit False
     (polls_of [Present False (Inr 100), Present False (Inr 100), Present False (Inr 200),
                Present False (Inr 200)]) 4 = (BudgetExhausted (Inr False), 4)"
proof -
  let ?xs = "[Present False (Inr 0), Present False (Inr 0), Present False (Inr 500),
                Present False (Inr 500), Present False (Inr 500)]"
  let ?sz = "\<lambda>i::nat. if i < 2 then 0 else (500::int)"
  let ?ys = "[Present False (Inr 100), Present False (Inr 100), Present False (Inr 200),
                Present False (Inr 200)]"
  let ?tz = "\<lambda>i::nat. if i < 2 then 100 else (200::int)"
  have b: "budget 30 = 30" "budget 4 = 4" by (simp_all add: budget_def)
  have p: "\<forall>i\<le>4. \<exists>opens st. polls_of ?xs i = Present opens st \<and> \<not> (False \<and> opens)
      \<and> stat_size st = Inr (?sz i)"
    by (auto simp: polls_of_def nth_Cons' le_Suc_eq stat_size_def eval_nat_numeral)
  have f: "\<forall>i<4. \<not> (2 \<le> i \<and> 0 < ?sz i \<and> ?sz (i - 1) = ?sz i \<and> ?sz (i - 2) = ?sz i)"
    by (auto simp: less_Suc_eq eval_nat_numeral)
  have A: "4 < budget 30
      \<and> (\<forall>i\<le>4. \<exists>opens st. polls_of ?xs i = Present opens st \<and> \<not> (False \<and> opens)
            \<and> stat_size st = Inr (?sz i))
      \<and> 2 \<le> (4::nat) \<and> 0 < ?sz 4 \<and> ?sz (4 - 1) = ?sz 4 \<and> ?sz (4 - 2) = ?sz 4
      \<and> (\<forall>i<4. \<not> (2 \<le> i \<and> 0 < ?sz i \<and> ?sz (i - 1) = ?sz i \<and> ?sz (i - 2) = ?sz i))"
    by (intro conjI p f) (simp_all add: b)
  from mp[OF stops_growing[of 4 30 "polls_of ?xs" False ?sz False, THEN conjunct1] A]
  have 1: "wait_exit False (polls_of ?xs) 30 = (SizeStable, 5)" by simp
  have q: "\<forall>i<budget 4. \<exists>opens st. polls_of ?ys i = Present opens st \<and> \<not> (False \<and> opens)
      \<and> stat_size st = Inr (?tz i)"
    by (auto simp: b polls_of_def nth_Cons' less_Suc_eq stat_size_def eval_nat_numeral)
  have g: "\<forall>i<budget 4. \<not> (2 \<le> i \<and> 0 < ?tz i \<and> ?tz (i - 1) = ?tz i \<and> ?tz (i - 2) = ?tz i)"
    by (auto simp: b less_Suc_eq eval_nat_numeral)
  have B: "(\<forall>i<budget 4. \<exists>opens st. polls_of ?ys i = Present opens st \<and> \<not> (False \<and> opens)
            \<and> stat_size st = Inr (?tz i))
      \<and> (\<forall>i<budget 4. \<not> (2 \<le> i \<and> 0 < ?tz i \<and> ?tz (i - 1) = ?tz i \<and> ?tz (i - 2) = ?tz i))"
    by (intro conjI q g)
  from mp[OF stops_growing[of 0 4 "polls_of ?ys" False ?tz False, THEN conjunct2] B]
  have "wait_exit False (polls_of ?ys) 4 = (BudgetExhausted (exists_at (polls_of ?ys) (budget 4)), budget 4)"
    by (rule conjunct1)
  then have 2: "wait_exit False (polls_of ?ys) 4 = (BudgetExhausted (Inr False), 4)"
    by (simp add: b exists_at_def polls_of_def)
  from 1 2 show ?thesis by (intro conjI)
qed

text \<open>
  C7 (polls at which the path does not exist). Such a poll does not reset the
  stability counter: the loop \<^verbatim>\<open>continue\<close>s with \<open>last_size\<close> and \<open>stable_count\<close>
  as they were. Below, the counter is one before the third poll, which finds
  no path, and one after it; so the fourth poll, which observes the size 500
  again, ends the loop through the stability exit. And an unready file can
  make the function raise: \<^verbatim>\<open>path.stat()\<close> raising \<^verbatim>\<open>PermissionError\<close> is not caught.
\<close>

theorem missing_poll_keeps_counter:
  "polls_run False (polls_of [Present False (Inr 500), Present False (Inr 500), Missing]) 3
     = Inl \<lparr>last_size = 500, stable_count = 1\<rparr>
   \<and> wait_exit False (polls_of [Present False (Inr 500), Present False (Inr 500), Missing,
         Present False (Inr 500)]) 4 = (SizeStable, 4)
   \<and> wait_for_file_ready False (polls_of [Present False (Inl PermissionError)]) False 3
       = Inl PermissionError"
  by (simp add: wait_for_file_ready_def wait_exit_def budget_def polls_of_def poll_body_def
      stat_size_def initial_probe_state_def exists_at_def numeral_2_eq_2 numeral_3_eq_3
      eval_nat_numeral)

text \<open>
  C7 as the code has it. A poll at which the path does not exist consumes one
  attempt of the budget, and the loop goes on to the next poll; when the loop
  ends by exhausting the budget, the function returns what \<^verbatim>\<open>path.exists()\<close>
  reports after the last poll; a path that exists at none of the polls
  exhausts the budget; and the function raises no exception of its own: one
  leaves it only when \<^verbatim>\<open>path.exists()\<close> raises it at one of the polls or after the
  last, or \<^verbatim>\<open>path.stat()\<close> raises it and it is not \<^verbatim>\<open>FileNotFoundError\<close>.
\<close>

theorem missing_poll_consumes_attempt:
  "(obs i = Missing \<longrightarrow>
      poll_body hp (obs i) s = Inl s
      \<and> wait_loop hp obs (Suc n) i s = wait_loop hp obs n (Suc i) s)
   \<and> (fst (wait_exit hp obs r) = BudgetExhausted b \<longrightarrow>
        b = exists_at obs (budget r)
        \<and> wait_for_file_ready hp obs up r = exists_at obs (budget r))
   \<and> ((\<forall>j<budget r. obs j = Missing) \<longrightarrow>
        wait_exit hp obs r = (BudgetExhausted (exists_at obs (budget r)), budget r))
   \<and> (wait_for_file_ready hp obs up r = Inl e \<longrightarrow>
        (\<exists>j\<le>budget r. obs j = Exists_raises e
            \<or> (\<exists>opens. obs j = Present opens (Inl e) \<and> e \<noteq> FileNotFoundError)))"
proof (intro conjI impI)
  assume "obs i = Missing"
  then show "poll_body hp (obs i) s = Inl s" by (simp add: poll_body_Missing)
next
  assume "obs i = Missing"
  then show "wait_loop hp obs (Suc n) i s = wait_loop hp obs n (Suc i) s"
    by (simp add: poll_body_Missing)
next
  assume a: "fst (wait_exit hp obs r) = BudgetExhausted b"
  then obtain m where "wait_loop hp obs (budget r) 0 initial_probe_state = (BudgetExhausted b, m)"
    by (cases "wait_loop hp obs (budget r) 0 initial_probe_state") (simp add: wait_exit_def)
  from wait_loop_exhausted[OF this] show b: "b = exists_at obs (budget r)" by simp
  from a b show "wait_for_file_ready hp obs up r = exists_at obs (budget r)"
    by (simp add: wait_for_file_ready_def)
next
  assume "\<forall>j<budget r. obs j = Missing"
  then have "wait_loop hp obs (budget r) 0 initial_probe_state
     = (BudgetExhausted (exists_at obs (0 + budget r)), 0 + budget r)"
    by (intro wait_loop_no_size) simp
  then show "wait_exit hp obs r = (BudgetExhausted (exists_at obs (budget r)), budget r)"
    by (simp add: wait_exit_def)
next
  assume "wait_for_file_ready hp obs up r = Inl e"
  then have "exit_value (fst (wait_loop hp obs (budget r) 0 initial_probe_state)) = Inl e"
    by (simp add: wait_for_file_ready_def wait_exit_def)
  from wait_loop_raises[OF this]
  show "\<exists>j\<le>budget r. obs j = Exists_raises e
            \<or> (\<exists>opens. obs j = Present opens (Inl e) \<and> e \<noteq> FileNotFoundError)"
    by auto
qed

theorem missing_poll_consumes_attempt_witness:
  "polls_of [Missing, Missing, Present False (Inr 7)] 0 = Missing
   \<and> wait_loop False (polls_of [Missing, Missing, Present False (Inr 7)]) (Suc 1) 0 initial_probe_state
       = wait_loop False (polls_of [Missing, Missing, Present False (Inr 7)]) 1 (Suc 0) initial_probe_state
   \<and> wait_exit False (polls_of [Missing, Missing, Present False (Inr 7)]) 2
       = (BudgetExhausted (Inr True), 2)
   \<and> wait_for_file_ready False (polls_of [Missing, Missing, Present False (Inr 7)]) False 2 = Inr True
   \<and> wait_for_file_ready False (polls_of [Missing, Exists_raises PermissionError]) False 2
       = Inl PermissionError
   \<and> (\<exists>j\<le>budget 2. polls_of [Missing, Exists_raises PermissionError] j = Exists_raises PermissionError
         \<or> (\<exists>opens. polls_of [Missing, Exists_raises PermissionError] j
                = Present opens (Inl PermissionError)))"
proof -
  let ?obs = "polls_of [Missing, Missing, Present False (Inr 7)]"
  let ?bad = "polls_of [Missing, Exists_raises PermissionError]"
  have m0: "?obs 0 = Missing" by (simp add: polls_of_def)
  have all: "\<forall>j<budget 2. ?obs j = Missing"
    by (simp add: polls_of_def budget_def nth_Cons' less_Suc_eq numeral_2_eq_2)
  have ex: "exists_at ?obs (budget 2) = Inr True"
    by (simp add: exists_at_def polls_of_def budget_def)
  note t = missing_poll_consumes_attempt[of ?obs 0 False initial_probe_state 1 2 "Inr True" False]
  from t m0 have step: "wait_loop False ?obs (Suc 1) 0 initial_probe_state
       = wait_loop False ?obs 1 (Suc 0) initial_probe_state" by blast
  from t all have w: "wait_exit False ?obs 2 = (BudgetExhausted (exists_at ?obs (budget 2)), budget 2)"
    by blast
  with ex have w': "wait_exit False ?obs 2 = (BudgetExhausted (Inr True), 2)" by (simp add: budget_def)
  then have "fst (wait_exit False ?obs 2) = BudgetExhausted (Inr True)" by simp
  with t ex have r: "wait_for_file_ready False ?obs False 2 = Inr True" by simp
  have x: "wait_for_file_ready False ?bad False 2 = Inl PermissionError"
    by (simp add: wait_for_file_ready_def wait_exit_def budget_def polls_of_def poll_body_def
        numeral_2_eq_2)
  note u = missing_poll_consumes_attempt[of ?bad 0 False initial_probe_state 1 2 "Inr True" False
      PermissionError]
  from u x have y: "\<exists>j\<le>budget 2. ?bad j = Exists_raises PermissionError
         \<or> (\<exists>opens. ?bad j = Present opens (Inl PermissionError) \<and> PermissionError \<noteq> FileNotFoundError)"
    by blast
  then have y': "\<exists>j\<le>budget 2. ?bad j = Exists_raises PermissionError
         \<or> (\<exists>opens. ?bad j = Present opens (Inl PermissionError))"
    by blast
  from m0 step w' r x y' show ?thesis by (intro conjI)
qed

text \<open>
  C10 (a file of size 0). When every poll finds the path with size 0 and the
  structural probe unavailable or failing, the loop never leaves through the
  stability exit: it exhausts the budget, and the value returned is what
  \<^verbatim>\<open>path.exists()\<close> reports after the last poll.
\<close>

theorem zero_size_never_stable:
  assumes "\<forall>i<budget r. \<exists>opens. obs i = Present opens (Inr 0) \<and> \<not> (hp \<and> opens)"
  shows "wait_exit hp obs r = (BudgetExhausted (exists_at obs (budget r)), budget r)
       \<and> fst (wait_exit hp obs r) \<noteq> SizeStable
       \<and> wait_for_file_ready hp obs up r = exists_at obs (budget r)"
proof -
  have "wait_loop hp obs (budget r) 0 initial_probe_state
     = (BudgetExhausted (exists_at obs (0 + budget r)), 0 + budget r)"
    by (intro wait_loop_no_size) (use assms in simp)
  then show ?thesis by (simp add: wait_exit_def wait_for_file_ready_def)
qed

theorem zero_size_never_stable_witness:
  "wait_exit False (\<lambda>_. Present True (Inr 0)) 3 = (BudgetExhausted (Inr True), 3)
   \<and> wait_for_file_ready False (\<lambda>_. Present True (Inr 0)) False 3 = Inr True"
proof -
  have h: "\<forall>i<budget 3. \<exists>opens. (\<lambda>_. Present True (Inr 0)) i = Present opens (Inr 0) \<and> \<not> (False \<and> opens)"
    by auto
  from zero_size_never_stable[OF h, of False] show ?thesis
    by (simp add: exists_at_def budget_def)
qed

section \<open>Properties of the base64 encoding\<close>

lemma index_of_None: "index_of c xs = None \<longleftrightarrow> c \<notin> set xs"
  by (induction xs) auto

lemma index_of_nth: "distinct xs \<Longrightarrow> n < length xs \<Longrightarrow> index_of (xs ! n) xs = Some n"
proof (induction xs arbitrary: n)
  case Nil
  then show ?case by simp
next
  case (Cons x xs)
  show ?case
  proof (cases n)
    case 0
    then show ?thesis by simp
  next
    case (Suc m)
    with Cons.prems have "xs ! m \<in> set xs" "x \<notin> set xs" by auto
    then have "x \<noteq> xs ! m" by auto
    with Suc Cons show ?thesis by simp
  qed
qed

lemma length_b64_alphabet: "length b64_alphabet = 64"
  by (simp add: b64_alphabet_def)

lemma distinct_b64_alphabet: "distinct b64_alphabet"
  by (simp add: b64_alphabet_def byte_of_char_def)

lemma b64_pad_not_digit: "b64_pad \<notin> set b64_alphabet"
  by (simp add: b64_alphabet_def byte_of_char_def b64_pad_def)

lemma b64_alphabet_ascii: "list_all (\<lambda>b. unat b < 128) b64_alphabet"
  by (simp add: b64_alphabet_def byte_of_char_def)

lemma b64_pad_ascii: "unat b64_pad < 128"
  by (simp add: b64_pad_def byte_of_char_def)

lemma b64_digit_in: "b64_digit n \<in> set b64_alphabet"
  by (simp add: b64_digit_def length_b64_alphabet)

lemma b64_value_digit: "n < 64 \<Longrightarrow> b64_value (b64_digit n) = Some n"
  by (simp add: b64_value_def b64_digit_def index_of_nth distinct_b64_alphabet length_b64_alphabet)

lemma b64_digit_not_pad: "b64_digit n \<noteq> b64_pad"
  using b64_digit_in[of n] b64_pad_not_digit by auto

lemma b64_digit_ascii: "unat (b64_digit n) < 128"
  using b64_digit_in[of n] b64_alphabet_ascii by (auto simp: list_all_iff)

lemma unat_byte_bound: "unat (a :: byte) < 256"
  using unsigned_less[of a, where 'a=nat] by simp

lemma sextet_bounds:
  fixes x y z :: nat
  assumes "x < 256" "y < 256" "z < 256"
  shows "x div 4 < 64" "x mod 4 * 16 + y div 16 < 64" "y mod 16 * 4 + z div 64 < 64"
    "x mod 4 * 16 < 64" "y mod 16 * 4 < 64"
proof -
  have a: "x mod 4 < 4" "y mod 16 < 16" by simp_all
  have b: "y div 16 < 16" "z div 64 < 4" "x div 4 < 64"
    using assms by (simp_all add: less_mult_imp_div_less)
  show "x div 4 < 64" by (rule b)
  show "x mod 4 * 16 + y div 16 < 64" using a(1) b(1) by linarith
  show "y mod 16 * 4 + z div 64 < 64" using a(2) b(2) by linarith
  show "x mod 4 * 16 < 64" using a(1) by linarith
  show "y mod 16 * 4 < 64" using a(2) by linarith
qed

lemma octets_back:
  fixes x y z :: nat
  assumes "x < 256" "y < 256" "z < 256"
  shows "x div 4 * 4 + (x mod 4 * 16 + y div 16) div 16 = x"
    and "(x mod 4 * 16 + y div 16) mod 16 * 16 + (y mod 16 * 4 + z div 64) div 4 = y"
    and "(y mod 16 * 4 + z div 64) mod 4 * 64 + z mod 64 = z"
    and "x div 4 * 4 + (x mod 4 * 16) div 16 = x"
    and "(x mod 4 * 16 + y div 16) mod 16 * 16 + (y mod 16 * 4) div 4 = y"
proof -
  have b: "y div 16 < 16" "z div 64 < 4"
    using assms by (simp_all add: less_mult_imp_div_less)
  have d1: "(x mod 4 * 16 + y div 16) div 16 = x mod 4" using b(1) by simp
  have d2: "(y mod 16 * 4 + z div 64) div 4 = y mod 16" using b(2) by simp
  have m1: "(x mod 4 * 16 + y div 16) mod 16 = y div 16" using b(1) by simp
  have m2: "(y mod 16 * 4 + z div 64) mod 4 = z div 64" using b(2) by simp
  show "x div 4 * 4 + (x mod 4 * 16 + y div 16) div 16 = x" unfolding d1 by simp
  have m1': "y div 16 mod 16 = y div 16" using b(1) by simp
  have m2': "z div 64 mod 4 = z div 64" using b(2) by simp
  show "(x mod 4 * 16 + y div 16) mod 16 * 16 + (y mod 16 * 4 + z div 64) div 4 = y"
    unfolding m1 d2 by simp
  show "(y mod 16 * 4 + z div 64) mod 4 * 64 + z mod 64 = z" unfolding m2 by simp
  show "x div 4 * 4 + (x mod 4 * 16) div 16 = x" by simp
  show "(x mod 4 * 16 + y div 16) mod 16 * 16 + (y mod 16 * 4) div 4 = y"
    unfolding m1 by simp
qed

lemma b64decode_b64encode: "b64decode (b64encode bs) = Some bs"
proof (induction bs rule: b64encode.induct)
  case 1
  then show ?case by simp
next
  case (2 a)
  note b = unat_byte_bound[of a]
  show ?case
    using sextet_bounds[OF b b b] octets_back[OF b b b]
    by (simp add: b64_value_digit b64_digit_not_pad Let_def)
next
  case (3 a b)
  note ba = unat_byte_bound[of a] and bb = unat_byte_bound[of b]
  show ?case
    using sextet_bounds[OF ba bb bb] octets_back[OF ba bb bb]
    by (simp add: b64_value_digit b64_digit_not_pad Let_def)
next
  case (4 a b c rest)
  note ba = unat_byte_bound[of a] and bb = unat_byte_bound[of b] and bc = unat_byte_bound[of c]
  have z: "unat c mod 64 < 64" by simp
  show ?case
    using sextet_bounds[OF ba bb bc] octets_back[OF ba bb bc] z 4
    by (simp add: b64_value_digit b64_digit_not_pad Let_def)
qed

lemma b64encode_ascii: "list_all (\<lambda>b. unat b < 128) (b64encode bs)"
  by (induction bs rule: b64encode.induct) (simp_all add: b64_digit_ascii b64_pad_ascii Let_def)

lemma encode_utf8_ascii:
  "list_all (\<lambda>b. unat b < 128) bs \<Longrightarrow> encode_utf8 (map (\<lambda>b. char_of (unat b)) bs) = bs"
proof (induction bs)
  case Nil
  then show ?case by (simp add: encode_utf8_def)
next
  case (Cons b bs)
  then have "unat b < 128" by simp
  then have "(of_char (char_of (unat b) :: char) :: nat) = unat b" by simp
  with Cons show ?case by (simp add: encode_utf8_def)
qed

lemma decode_ascii_b64encode:
  "decode_ascii (b64encode bs) = Inr (map (\<lambda>b. char_of (unat b)) (b64encode bs))"
  by (simp add: decode_ascii_def b64encode_ascii)

section \<open>Properties of the handler\<close>

lemma name_suffix_cut: "take (length n - length (name_suffix n)) n @ name_suffix n = n"
proof (cases "rfind CHR ''.'' n")
  case None
  then show ?thesis by (simp add: name_suffix_def)
next
  case (Some i)
  show ?thesis
  proof (cases "0 < i \<and> i < length n - 1")
    case True
    then have "length n - (length n - i) = i" by auto
    with Some True show ?thesis by (simp add: name_suffix_def)
  next
    case False
    with Some show ?thesis by (auto simp: name_suffix_def)
  qed
qed

lemma with_suffix_own: "with_suffix (d @ [n]) (path_suffix (d @ [n]) @ t) = d @ [n @ t]"
proof -
  have "take (length n - length (name_suffix n)) n @ name_suffix n @ t = n @ t"
    using name_suffix_cut[of n] by (metis append.assoc)
  then show ?thesis
    by (simp add: with_suffix_def path_suffix_def path_name_def)
qed

lemma tmp_pdf_out: "with_suffix (pdf_out_path h p) (path_suffix (pdf_out_path h p) @ ''.tmp'')
    = output_dir h @ [(path_stem p @ ''_ocr.pdf'') @ ''.tmp'']"
  unfolding pdf_out_path_def by (rule with_suffix_own)

lemma tmp_path: "with_suffix (out_path h p) (path_suffix (out_path h p) @ ''.tmp'')
    = output_dir h @ [(path_stem p @ ''.base64'') @ ''.tmp'']"
  unfolding out_path_def by (rule with_suffix_own)

lemma emit_pdf_True:
  assumes "emit_pdf h p data u w = (True, w1)"
  shows "files w1 (pdf_out_path h p) = Some data" "dirs w1 = dirs w" "denied w1 = denied w"
  using assms unfolding emit_pdf_def tmp_pdf_out
  by (auto simp: Let_def write_bytes_def os_replace_def logging_def
      split: if_splits sum.splits option.splits)

lemma try_body_Inr:
  assumes "try_body h env p w = (Inr ok, w')"
  shows "\<exists>data u w0 w1. ocr_to_bytes env (ocr_jobs h) (output_type h) w = (Inr (data, u), w0)
     \<and> emit_pdf h p data u w0 = (ok, w1)
     \<and> files w' (out_path h p) = Some (b64encode data)
     \<and> files w' (pdf_out_path h p) = files w1 (pdf_out_path h p)"
proof -
  from assms obtain data u w0 where oc: "ocr_to_bytes env (ocr_jobs h) (output_type h) w = (Inr (data, u), w0)"
    by (auto simp: try_body_def split: prod.splits sum.splits)
  obtain ok1 w1 where e: "emit_pdf h p data u w0 = (ok1, w1)" by (cases "emit_pdf h p data u w0")
  have asc: "encode_utf8 (map (\<lambda>b. char_of (unat b)) (b64encode data)) = b64encode data"
    by (rule encode_utf8_ascii) (rule b64encode_ascii)
  have ne: "pdf_out_path h p \<noteq> out_path h p"
    "pdf_out_path h p \<noteq> output_dir h @ [(path_stem p @ ''.base64'') @ ''.tmp'']"
    by (simp_all add: pdf_out_path_def out_path_def)
  from assms oc e have "ok1 = ok
     \<and> files w' (out_path h p) = Some (b64encode data)
     \<and> files w' (pdf_out_path h p) = files w1 (pdf_out_path h p)"
    using ne
    unfolding try_body_def tmp_path
    by (auto simp: decode_ascii_b64encode asc mkdir_parents_def write_text_def
        write_bytes_def os_replace_def logging_def Let_def
        split: sum.splits if_splits option.splits)
  with oc e show ?thesis by blast
qed

lemma ocr_to_bytes_resolve:
  "ocr_to_bytes (env\<lparr>resolve := r\<rparr>) j t w = ocr_to_bytes env j t w"
  by (cases "read_input env") (auto simp: ocr_to_bytes_def engine_jobs_def)

lemma try_body_resolve:
  "try_body h (env\<lparr>resolve := r\<rparr>) p w = try_body h env p w"
  unfolding try_body_def ocr_to_bytes_resolve by (rule refl)

lemma try_body_unreadable:
  "read_input env = None \<Longrightarrow> try_body h env p w = (Inl RuntimeError, w)"
  unfolding try_body_def ocr_to_bytes_def by simp

text \<open>When \<^verbatim>\<open>ocr_to_bytes\<close> raises: the input cannot be read, or the scratch file fails.\<close>

lemma ocr_to_bytes_raises:
  "(\<exists>e. fst (ocr_to_bytes env j t w) = Inl e) \<longleftrightarrow>
     read_input env = None
     \<or> (ocrmypdf_installed env \<and> (\<not> scratch_created env \<or> \<not> scratch_removed env))"
  by (cases "ocrmypdf_ocr env (engine_jobs env j) (if t = [] then ''pdf'' else t)")
     (auto simp: ocr_to_bytes_def split: option.splits if_splits)

lemma ocr_to_bytes_no_scratch:
  "read_input env = Some original \<Longrightarrow> ocrmypdf_installed env \<Longrightarrow> \<not> scratch_created env \<Longrightarrow>
   ocr_to_bytes env j t w = (Inl OSError, w)"
  by (simp add: ocr_to_bytes_def)

lemma try_body_no_scratch:
  "read_input env = Some original \<Longrightarrow> ocrmypdf_installed env \<Longrightarrow> \<not> scratch_created env \<Longrightarrow>
   try_body h env p w = (Inl OSError, w)"
  unfolding try_body_def by (simp add: ocr_to_bytes_no_scratch)

text \<open>
  A task whose \<^verbatim>\<open>ocr_to_bytes\<close> raises before anything is logged ends at a filter,
  at the readiness gate (unready, or with the gate's exception), or in the
  handler of the outer \<^verbatim>\<open>try\<close>, which logs the failure.
\<close>

lemma handle_path_aborts:
  assumes "try_body h env p w = (Inl e, w)"
  shows "handle_path h env p w = (Filtered, w)
    \<or> (\<exists>x. handle_path h env p w = (Escaped x, w))
    \<or> handle_path h env p w = (Unready, logging WARNING (Not_ready p) w)
    \<or> handle_path h env p w = (Errored, logging ERROR (Failed_to_process p) w)"
  by (simp add: handle_path_def assms split: sum.splits)

lemma handle_path_Emitted:
  assumes "handle_path h env p w = (Emitted ok, w')"
  shows "try_body h env p w = (Inr ok, w')"
proof (cases "try_body h env p w")
  case (Pair r w1)
  with assms show ?thesis
    by (cases r) (auto simp: handle_path_def split: if_splits sum.splits)
qed

lemma handle_path_unreadable:
  assumes "read_input env = None"
  shows "handle_path h env p w = (Filtered, w)
    \<or> (\<exists>x. handle_path h env p w = (Escaped x, w))
    \<or> handle_path h env p w = (Unready, logging WARNING (Not_ready p) w)
    \<or> handle_path h env p w = (Errored, logging ERROR (Failed_to_process p) w)"
  by (rule handle_path_aborts) (rule try_body_unreadable[OF assms])

text \<open>
  An input that cannot be read: the task writes no file and creates no
  directory, and the work unit releases the path.
\<close>

lemma unreadable_input_aborts:
  assumes "read_input env = None"
  shows "files (snd (handle_path h env p w)) = files w"
    and "dirs (snd (handle_path h env p w)) = dirs w"
    and "p \<notin> in_flight (task h env p s)"
  using handle_path_unreadable[OF assms, of h p w]
  by (auto simp: logging_def task_def split: prod.splits)

lemma emit_pdf_missing_dir:
  "output_dir h \<notin> dirs w \<Longrightarrow>
   emit_pdf h p data u w = (False, logging WARNING Pdf_write_failed w)"
  unfolding emit_pdf_def tmp_pdf_out
  by (simp add: write_bytes_def writable_def)

lemma initial_scan_all_within:
  "list_all (\<lambda>pdf. is_within res pdf (output_dir h)) pdfs \<Longrightarrow> initial_scan res h pdfs s = s"
  by (induction pdfs) simp_all

section \<open>Properties of the dispatcher\<close>

lemma task_fields:
  "in_flight (task h env p s) = in_flight s - {p}"
  "pending (task h env p s) = pending s"
  "running (task h env p s) = running s"
  by (simp_all add: task_def split: prod.splits)

lemma submit_path_dup:
  "p \<in> in_flight s \<Longrightarrow> in_flight (submit_path p s) = in_flight s"
  "p \<in> in_flight s \<Longrightarrow> pending (submit_path p s) = pending s"
  "p \<in> in_flight s \<Longrightarrow> running (submit_path p s) = running s"
  by (simp_all add: submit_path_def)

lemma submit_path_new:
  "p \<notin> in_flight s \<Longrightarrow> in_flight (submit_path p s) = insert p (in_flight s)"
  "p \<notin> in_flight s \<Longrightarrow> pending (submit_path p s) = pending s @ [p]"
  "running (submit_path p s) = running s"
  by (simp_all add: submit_path_def)

lemma consistent_initial: "consistent (initial_system w)"
  by (simp add: consistent_def initial_system_def)

lemma consistent_submit: "consistent s \<Longrightarrow> consistent (submit_path p s)"
  by (cases "p \<in> in_flight s") (auto simp: consistent_def submit_path_dup submit_path_new)

lemma consistent_start: "consistent s \<Longrightarrow> consistent (step h k Start s)"
  by (cases "pending s") (auto simp: consistent_def)

lemma consistent_finish: "consistent s \<Longrightarrow> consistent (step h k (Finish p env) s)"
proof (cases "p \<in> set (running s)")
  case False
  assume "consistent s"
  with False show ?thesis by simp
next
  case True
  assume c: "consistent s"
  then have d: "distinct (pending s)" "distinct (running s)" "set (pending s) \<inter> set (running s) = {}"
    and i: "in_flight s = set (pending s) \<union> set (running s)"
    by (auto simp: consistent_def)
  from True d have "p \<notin> set (pending s)" by auto
  with True d i show ?thesis
    by (auto simp: consistent_def task_fields)
qed

lemma consistent_step: "consistent s \<Longrightarrow> consistent (step h k e s)"
  by (cases e) (simp_all add: consistent_submit consistent_start consistent_finish del: step.simps(2,3))

lemma consistent_run: "consistent s \<Longrightarrow> consistent (run h k es s)"
  by (induction es arbitrary: s) (simp_all add: consistent_step del: step.simps)

lemma count_list_distinct: "distinct xs \<Longrightarrow> count_list xs x \<le> 1"
  by (induction xs) auto

lemma run_duplicates:
  "p \<in> in_flight s \<Longrightarrow>
   in_flight (run h k (replicate n (Submit p)) s) = in_flight s
   \<and> pending (run h k (replicate n (Submit p)) s) = pending s
   \<and> running (run h k (replicate n (Submit p)) s) = running s"
proof (induction n arbitrary: s)
  case 0
  then show ?case by simp
next
  case (Suc n)
  from Suc.prems have "p \<in> in_flight (submit_path p s)" by (simp add: submit_path_dup)
  from Suc.IH[OF this] Suc.prems show ?case by (simp add: submit_path_dup)
qed

lemma in_flight_step_other:
  assumes "consistent s"
  shows "(p \<in> in_flight (step h k e s)) =
     (case e of
        Submit q \<Rightarrow> q = p \<or> p \<in> in_flight s
      | Start \<Rightarrow> p \<in> in_flight s
      | Finish q env \<Rightarrow> p \<in> in_flight s \<and> \<not> (q = p \<and> p \<in> set (running s)))"
proof (cases e)
  case (Submit q)
  then show ?thesis by (cases "q \<in> in_flight s") (auto simp: submit_path_dup submit_path_new)
next
  case Start
  then show ?thesis by (cases "pending s") auto
next
  case (Finish q env)
  then show ?thesis by (auto simp: task_fields)
qed

lemma running_in_flight: "consistent s \<Longrightarrow> p \<in> set (running s) \<Longrightarrow> p \<in> in_flight s"
  by (auto simp: consistent_def)

lemma releases_balance:
  "consistent s \<Longrightarrow>
   releases h k p es s + (if p \<in> in_flight (run h k es s) then 1 else 0)
   = admissions h k p es s + (if p \<in> in_flight s then 1 else 0)"
proof (induction es arbitrary: s)
  case Nil
  then show ?case by simp
next
  case (Cons e es)
  let ?s' = "step h k e s"
  have c: "consistent ?s'" using Cons.prems by (rule consistent_step)
  note ih = Cons.IH[OF c]
  note m = in_flight_step_other[OF Cons.prems, of p h k e]
  show ?case
  proof (cases e)
    case (Submit q)
    with ih m show ?thesis by (auto simp del: step.simps)
  next
    case Start
    with ih m show ?thesis by (auto simp del: step.simps)
  next
    case (Finish q env)
    with ih m running_in_flight[OF Cons.prems, of p] show ?thesis
      by (auto simp del: step.simps)
  qed
qed

section \<open>The dispatcher's claims\<close>

text \<open>
  C1 (deduplication). A submission of a path that is a member of \<^verbatim>\<open>_in_flight\<close>
  leaves the set, the executor's queue and the running work units as they are,
  and so does any number of such submissions in a row; and in every state that
  a run of submissions, worker starts and completions reaches from the empty
  dispatcher, the executor holds at most one work unit of a path, queued or
  running, so at most one work unit of it is running.
\<close>

theorem dedup:
  "(p \<in> in_flight s \<longrightarrow>
      in_flight (submit_path p s) = in_flight s
      \<and> pending (submit_path p s) = pending s
      \<and> running (submit_path p s) = running s
      \<and> in_flight (run h k (replicate n (Submit p)) s) = in_flight s
      \<and> pending (run h k (replicate n (Submit p)) s) = pending s
      \<and> running (run h k (replicate n (Submit p)) s) = running s)
   \<and> count_list (pending (run h k es (initial_system w))
                  @ running (run h k es (initial_system w))) p \<le> 1
   \<and> count_list (running (run h k es (initial_system w))) p \<le> 1"
proof (intro conjI impI)
  assume a: "p \<in> in_flight s"
  then show "in_flight (submit_path p s) = in_flight s" "pending (submit_path p s) = pending s"
    "running (submit_path p s) = running s"
    by (simp_all add: submit_path_dup)
  from run_duplicates[OF a, of h k n]
  show "in_flight (run h k (replicate n (Submit p)) s) = in_flight s"
    "pending (run h k (replicate n (Submit p)) s) = pending s"
    "running (run h k (replicate n (Submit p)) s) = running s"
    by simp_all
next
  have "consistent (run h k es (initial_system w))"
    by (rule consistent_run) (rule consistent_initial)
  then have d: "distinct (pending (run h k es (initial_system w)) @ running (run h k es (initial_system w)))"
    by (simp add: consistent_def)
  then show "count_list (pending (run h k es (initial_system w))
                  @ running (run h k es (initial_system w))) p \<le> 1"
    by (rule count_list_distinct)
  from d have "distinct (running (run h k es (initial_system w)))" by simp
  then show "count_list (running (run h k es (initial_system w))) p \<le> 1"
    by (rule count_list_distinct)
qed

theorem dedup_witness:
  "[''in'', ''a.pdf''] \<in> in_flight (submit_path [''in'', ''a.pdf''] (initial_system sample_world))
   \<and> pending (run sample_handler 2 (replicate 3 (Submit [''in'', ''a.pdf'']))
        (submit_path [''in'', ''a.pdf''] (initial_system sample_world))) = [[''in'', ''a.pdf'']]
   \<and> count_list (running (run sample_handler 2
        [Submit [''in'', ''a.pdf''], Start, Submit [''in'', ''a.pdf''], Start]
        (initial_system sample_world))) [''in'', ''a.pdf''] \<le> 1"
proof -
  let ?p = "[''in'', ''a.pdf'']"
  let ?s = "submit_path ?p (initial_system sample_world)"
  have a: "?p \<in> in_flight ?s" by (simp add: submit_path_def initial_system_def)
  have b: "pending ?s = [?p]" by (simp add: submit_path_def initial_system_def)
  note t = dedup[of ?p ?s sample_handler 2 3
      "[Submit ?p, Start, Submit ?p, Start]" sample_world]
  from t a have "pending (run sample_handler 2 (replicate 3 (Submit ?p)) ?s) = pending ?s"
    by blast
  then have c: "pending (run sample_handler 2 (replicate 3 (Submit ?p)) ?s) = [?p]"
    by (simp only: b)
  from t have d: "count_list (running (run sample_handler 2
        [Submit ?p, Start, Submit ?p, Start] (initial_system sample_world))) ?p \<le> 1"
    by blast
  from a c d show ?thesis by (intro conjI)
qed

text \<open>
  C2 (release). Whatever the outside world answers to the work unit (the
  file filtered out, never ready, unreadable, its artifacts written, or an
  exception leaving \<^verbatim>\<open>_handle_path\<close>), the
  work unit ends by removing its path, and only its path, from \<^verbatim>\<open>_in_flight\<close>; a
  later submission of the path is admitted and queued again; and in every run
  from the empty dispatcher the work units of a path that have come to their
  end are as many as its admissions, less the one still in flight if there is
  one: each admission is released once.
\<close>

theorem release:
  "in_flight (task h env p s) = in_flight s - {p}
   \<and> p \<notin> in_flight (task h env p s)
   \<and> p \<in> in_flight (submit_path p (task h env p s))
   \<and> pending (submit_path p (task h env p s)) = pending s @ [p]
   \<and> releases h k p es (initial_system w)
        + (if p \<in> in_flight (run h k es (initial_system w)) then 1 else 0)
      = admissions h k p es (initial_system w)"
proof (intro conjI)
  show "in_flight (task h env p s) = in_flight s - {p}" by (simp add: task_fields)
  then show n: "p \<notin> in_flight (task h env p s)" by simp
  then show "p \<in> in_flight (submit_path p (task h env p s))"
    by (simp add: submit_path_new)
  from n show "pending (submit_path p (task h env p s)) = pending s @ [p]"
    by (simp add: submit_path_new task_fields)
  from releases_balance[OF consistent_initial, of h k p es w]
  show "releases h k p es (initial_system w)
        + (if p \<in> in_flight (run h k es (initial_system w)) then 1 else 0)
      = admissions h k p es (initial_system w)"
    by (simp add: initial_system_def)
qed

theorem release_witness:
  "[''in'', ''a.pdf''] \<notin> in_flight (task sample_handler sample_env [''in'', ''a.pdf'']
        (submit_path [''in'', ''a.pdf''] (initial_system sample_world)))
   \<and> [''in'', ''a.pdf''] \<notin> in_flight (task sample_handler (sample_env\<lparr>read_input := None\<rparr>)
        [''in'', ''a.pdf''] (submit_path [''in'', ''a.pdf''] (initial_system sample_world)))
   \<and> [''in'', ''a.pdf''] \<notin> in_flight (task sample_handler (sample_env\<lparr>polls := (\<lambda>i. Missing)\<rparr>)
        [''in'', ''a.pdf''] (submit_path [''in'', ''a.pdf''] (initial_system sample_world)))
   \<and> [''in'', ''a.pdf''] \<notin> in_flight (task sample_handler (sample_env\<lparr>is_dir := True\<rparr>)
        [''in'', ''a.pdf''] (submit_path [''in'', ''a.pdf''] (initial_system sample_world)))
   \<and> [''in'', ''a.pdf''] \<notin> in_flight (task sample_handler
        (sample_env\<lparr>polls := (\<lambda>i. Exists_raises PermissionError)\<rparr>)
        [''in'', ''a.pdf''] (submit_path [''in'', ''a.pdf''] (initial_system sample_world)))"
proof -
  let ?p = "[''in'', ''a.pdf'']"
  let ?s = "submit_path ?p (initial_system sample_world)"
  have r: "?p \<notin> in_flight (task sample_handler env ?p ?s)" for env
    by (rule release[of sample_handler env ?p ?s, THEN conjunct2, THEN conjunct1])
  show ?thesis by (intro conjI r)
qed

section \<open>The OCR adapter's claims\<close>



section \<open>The handler's claims\<close>

text \<open>
  C4 (round trip of the artifact pair). When \<^verbatim>\<open>_handle_path\<close> ends with both
  artifacts written, the file \<^verbatim>\<open><stem>_ocr.pdf\<close> holds the bytes that
  \<^verbatim>\<open>ocr_to_bytes\<close> returned, the file \<^verbatim>\<open><stem>.base64\<close> holds their base64
  encoding, and decoding the latter gives the former.
\<close>

theorem artifact_pair_round_trip:
  assumes "handle_path h env p w = (Emitted True, w')"
  shows "\<exists>pdf_bytes used_original.
      fst (ocr_to_bytes env (ocr_jobs h) (output_type h) w) = Inr (pdf_bytes, used_original)
      \<and> files w' (pdf_out_path h p) = Some pdf_bytes
      \<and> files w' (out_path h p) = Some (b64encode pdf_bytes)
      \<and> Option.bind (files w' (out_path h p)) b64decode = Some pdf_bytes"
proof -
  from assms have "try_body h env p w = (Inr True, w')" by (rule handle_path_Emitted)
  from try_body_Inr[OF this] obtain data u w0 w1
    where oc: "ocr_to_bytes env (ocr_jobs h) (output_type h) w = (Inr (data, u), w0)"
      and e: "emit_pdf h p data u w0 = (True, w1)"
      and b: "files w' (out_path h p) = Some (b64encode data)"
      and f: "files w' (pdf_out_path h p) = files w1 (pdf_out_path h p)"
    by blast
  from e have "files w1 (pdf_out_path h p) = Some data" by (rule emit_pdf_True)
  with f have "files w' (pdf_out_path h p) = Some data" by simp
  moreover from oc have "fst (ocr_to_bytes env (ocr_jobs h) (output_type h) w) = Inr (data, u)"
    by simp
  moreover from b have "Option.bind (files w' (out_path h p)) b64decode = Some data"
    by (simp add: b64decode_b64encode)
  ultimately show ?thesis using b by blast
qed

theorem artifact_pair_round_trip_witness:
  "fst (handle_path sample_handler sample_env [''in'', ''a.pdf''] sample_world) = Emitted True
   \<and> files (snd (handle_path sample_handler sample_env [''in'', ''a.pdf''] sample_world))
       [''in'', ''base64'', ''a_ocr.pdf''] = Some [4, 5, 6, 7]
   \<and> Option.bind (files (snd (handle_path sample_handler sample_env [''in'', ''a.pdf''] sample_world))
       [''in'', ''base64'', ''a.base64'']) b64decode = Some [4, 5, 6, 7]"
proof -
  let ?r = "handle_path sample_handler sample_env [''in'', ''a.pdf''] sample_world"
  have f: "fst ?r = Emitted True" by code_simp
  then have "?r = (Emitted True, snd ?r)" by (simp add: prod_eq_iff)
  from artifact_pair_round_trip[OF this] obtain pdf_bytes used_original
    where oc: "fst (ocr_to_bytes sample_env (ocr_jobs sample_handler) (output_type sample_handler)
        sample_world) = Inr (pdf_bytes, used_original)"
      and a: "files (snd ?r) (pdf_out_path sample_handler [''in'', ''a.pdf'']) = Some pdf_bytes"
      and b: "Option.bind (files (snd ?r) (out_path sample_handler [''in'', ''a.pdf''])) b64decode
        = Some pdf_bytes"
    by blast
  have "fst (ocr_to_bytes sample_env (ocr_jobs sample_handler) (output_type sample_handler)
        sample_world) = Inr ([4, 5, 6, 7], False)"
    by code_simp
  with oc have d: "pdf_bytes = [4, 5, 6, 7]" by simp
  have n: "pdf_out_path sample_handler [''in'', ''a.pdf''] = [''in'', ''base64'', ''a_ocr.pdf'']"
    "out_path sample_handler [''in'', ''a.pdf''] = [''in'', ''base64'', ''a.base64'']"
    by code_simp+
  from f a b show ?thesis unfolding d n by (intro conjI)
qed

text \<open>
  C5 (an unreadable input). \<^verbatim>\<open>ocr_to_bytes\<close> raises when reading the input's
  bytes fails, and the task then aborts (\<open>ocr_to_bytes_raises\<close>,
  \<open>unreadable_input_aborts\<close>); but it also raises on an input that can be read.
  The \<^verbatim>\<open>with\<close> statement of the scratch file stands outside the \<^verbatim>\<open>try\<close> whose
  handlers fall back to the original bytes: below, the input is read, \<^verbatim>\<open>ocrmypdf\<close>
  is installed and \<^verbatim>\<open>tempfile.NamedTemporaryFile\<close> fails. \<^verbatim>\<open>ocr_to_bytes\<close> raises
  \<^verbatim>\<open>OSError\<close>, and the task ends in the handler of the outer \<^verbatim>\<open>try\<close> with no
  artifact written, although the original bytes are at hand.
\<close>

theorem scratch_failure_raises:
  "read_input (sample_env\<lparr>scratch_created := False\<rparr>) = Some [1, 2, 3]
   \<and> ocr_to_bytes (sample_env\<lparr>scratch_created := False\<rparr>) (Some 1) ''pdf'' sample_world
       = (Inl OSError, sample_world)
   \<and> handle_path sample_handler (sample_env\<lparr>scratch_created := False\<rparr>) [''in'', ''a.pdf'']
       sample_world
     = (Errored, logging ERROR (Failed_to_process [''in'', ''a.pdf'']) sample_world)
   \<and> files (snd (handle_path sample_handler (sample_env\<lparr>scratch_created := False\<rparr>)
       [''in'', ''a.pdf''] sample_world)) [''in'', ''base64'', ''a_ocr.pdf''] = None
   \<and> files (snd (handle_path sample_handler (sample_env\<lparr>scratch_created := False\<rparr>)
       [''in'', ''a.pdf''] sample_world)) [''in'', ''base64'', ''a.base64''] = None"
proof -
  let ?env = "sample_env\<lparr>scratch_created := False\<rparr>"
  let ?p = "[''in'', ''a.pdf'']"
  have r: "read_input ?env = Some [1, 2, 3]" "ocrmypdf_installed ?env" "\<not> scratch_created ?env"
    by (simp_all add: sample_env_def)
  have 1: "ocr_to_bytes ?env (Some 1) ''pdf'' sample_world = (Inl OSError, sample_world)"
    using r by (rule ocr_to_bytes_no_scratch)
  have t: "try_body sample_handler ?env ?p sample_world = (Inl OSError, sample_world)"
    using r by (rule try_body_no_scratch)
  have f: "fst (handle_path sample_handler ?env ?p sample_world) = Errored" by code_simp
  with handle_path_aborts[OF t]
  have 2: "handle_path sample_handler ?env ?p sample_world
     = (Errored, logging ERROR (Failed_to_process ?p) sample_world)"
    by auto
  have 3: "files (snd (handle_path sample_handler ?env ?p sample_world))
       [''in'', ''base64'', ''a_ocr.pdf''] = None"
    "files (snd (handle_path sample_handler ?env ?p sample_world))
       [''in'', ''base64'', ''a.base64''] = None"
    unfolding 2 by (simp_all add: logging_def sample_world_def)
  from r(1) 1 2 3 show ?thesis by (intro conjI)
qed

text \<open>
  C8 (loop prevention). With an output directory different from the input
  directory, a path located under the output directory is ignored: the task
  ends at the filter and leaves the files and the log as they were. With the
  output directory equal to the input directory the check is skipped: what
  \<^verbatim>\<open>_handle_path\<close> does no longer depends on where paths resolve to. (The initial
  scan of \<^verbatim>\<open>main\<close> has a check of its own, made before it submits and whatever
  the two directories are: \<open>initial_scan_all_within\<close>.)
\<close>

theorem loop_prevention:
  "(output_dir h \<noteq> input_dir h \<and> is_within (resolve env) p (output_dir h) \<longrightarrow>
      handle_path h env p w = (Filtered, w))
   \<and> (output_dir h = input_dir h \<longrightarrow>
      handle_path h (env\<lparr>resolve := r\<rparr>) p w = handle_path h env p w)"
  by (simp add: handle_path_def try_body_resolve split: sum.splits)

theorem loop_prevention_witness:
  "handle_path sample_handler sample_env [''in'', ''base64'', ''x.pdf''] sample_world
     = (Filtered, sample_world)
   \<and> is_within (resolve sample_env) [''in'', ''a.pdf''] (output_dir same_dir_handler)
   \<and> fst (handle_path same_dir_handler (sample_env\<lparr>resolve := (\<lambda>q. None)\<rparr>) [''in'', ''a.pdf'']
        sample_world) = Emitted True"
proof -
  have a: "output_dir sample_handler \<noteq> input_dir sample_handler
     \<and> is_within (resolve sample_env) [''in'', ''base64'', ''x.pdf''] (output_dir sample_handler)"
    by code_simp
  note t1 = loop_prevention[of sample_handler sample_env "[''in'', ''base64'', ''x.pdf'']" sample_world]
  from t1 a have 1: "handle_path sample_handler sample_env [''in'', ''base64'', ''x.pdf''] sample_world
     = (Filtered, sample_world)"
    by blast
  have 2: "is_within (resolve sample_env) [''in'', ''a.pdf''] (output_dir same_dir_handler)"
    by code_simp
  have b: "output_dir same_dir_handler = input_dir same_dir_handler" by code_simp
  have c: "fst (handle_path same_dir_handler sample_env [''in'', ''a.pdf''] sample_world) = Emitted True"
    by code_simp
  note t2 = loop_prevention[of same_dir_handler sample_env "[''in'', ''a.pdf'']" sample_world "\<lambda>q. None"]
  from t2 b have "handle_path same_dir_handler (sample_env\<lparr>resolve := (\<lambda>q. None)\<rparr>) [''in'', ''a.pdf'']
        sample_world = handle_path same_dir_handler sample_env [''in'', ''a.pdf''] sample_world"
    by blast
  with c have 3: "fst (handle_path same_dir_handler (sample_env\<lparr>resolve := (\<lambda>q. None)\<rparr>)
        [''in'', ''a.pdf''] sample_world) = Emitted True"
    by simp
  from 1 2 3 show ?thesis by (intro conjI)
qed

text \<open>
  C9 (creation of the output directory). \<^verbatim>\<open>_handle_path\<close> calls \<^verbatim>\<open>mkdir\<close> once,
  after the PDF artifact has been written and before the base64 artifact is.
  When the output directory does not exist at that moment, the write of the
  PDF artifact fails and is logged as a warning (\<open>emit_pdf_missing_dir\<close>), the
  directory is then created, and only the base64 artifact is written.
\<close>

theorem pdf_write_precedes_mkdir:
  "[''in'', ''base64''] \<notin> dirs (sample_world\<lparr>dirs := {[], [''in'']}\<rparr>)
   \<and> fst (handle_path sample_handler sample_env [''in'', ''a.pdf'']
          (sample_world\<lparr>dirs := {[], [''in'']}\<rparr>)) = Emitted False
   \<and> files (snd (handle_path sample_handler sample_env [''in'', ''a.pdf'']
          (sample_world\<lparr>dirs := {[], [''in'']}\<rparr>))) [''in'', ''base64'', ''a_ocr.pdf''] = None
   \<and> files (snd (handle_path sample_handler sample_env [''in'', ''a.pdf'']
          (sample_world\<lparr>dirs := {[], [''in'']}\<rparr>))) [''in'', ''base64'', ''a.base64'']
        = Some (b64encode [4, 5, 6, 7])
   \<and> [''in'', ''base64''] \<in> dirs (snd (handle_path sample_handler sample_env [''in'', ''a.pdf'']
          (sample_world\<lparr>dirs := {[], [''in'']}\<rparr>)))
   \<and> logged (snd (handle_path sample_handler sample_env [''in'', ''a.pdf'']
          (sample_world\<lparr>dirs := {[], [''in'']}\<rparr>)))
        = [(WARNING, Pdf_write_failed),
           (INFO, Wrote_base64 [''in'', ''base64'', ''a.base64''] False)]"
proof (intro conjI)
  let ?w = "sample_world\<lparr>dirs := {[], [''in'']}\<rparr>"
  let ?r = "handle_path sample_handler sample_env [''in'', ''a.pdf''] ?w"
  show "[''in'', ''base64''] \<notin> dirs ?w" by simp
  show "fst ?r = Emitted False" by code_simp
  show "files (snd ?r) [''in'', ''base64'', ''a_ocr.pdf''] = None" by code_simp
  show "files (snd ?r) [''in'', ''base64'', ''a.base64''] = Some (b64encode [4, 5, 6, 7])"
    by code_simp
  show "[''in'', ''base64''] \<in> dirs (snd ?r)" by code_simp
  show "logged (snd ?r) = [(WARNING, Pdf_write_failed),
           (INFO, Wrote_base64 [''in'', ''base64'', ''a.base64''] False)]"
    by code_simp
qed

end
